theory Spec2Isabelle
  imports Complex_Main "HOL-Library.Word" "HOL-Library.Sublist" "HOL-Library.FSet"
begin

section \<open>Strings of the host language\<close>

text \<open>
  A JavaScript string is a sequence of 16-bit code units: \<open>length\<close> is \<open>str.length\<close> and
  the elements are what \<open>charCodeAt\<close> returns. \<open>js\<close> writes an ASCII literal as such a string.
\<close>

type_synonym jsstring = "16 word list"

definition js :: "string \<Rightarrow> jsstring" where
  "js s = map (\<lambda>c. of_nat (of_char c)) s"

text \<open>
  The code units matched by \<open>\s\<close> in a regular expression and removed by \<open>trim()\<close>:
  the WhiteSpace and LineTerminator productions of ECMAScript (TAB, LF, VT, FF, CR, SP, NBSP,
  U+1680, U+2000..U+200A, LS, PS, U+202F, U+205F, U+3000, U+FEFF).
\<close>

definition is_ws :: "16 word \<Rightarrow> bool" where
  "is_ws c \<longleftrightarrow>
     (9 \<le> c \<and> c \<le> 13) \<or> c = 32 \<or> c = 160 \<or> c = 5760 \<or> (8192 \<le> c \<and> c \<le> 8202) \<or>
     c = 8232 \<or> c = 8233 \<or> c = 8239 \<or> c = 8287 \<or> c = 12288 \<or> c = 65279"

text \<open>\<open>String.prototype.trim\<close>: white space removed from both ends.\<close>

definition trimStart :: "jsstring \<Rightarrow> jsstring" where
  "trimStart s = dropWhile is_ws s"

definition trimEnd :: "jsstring \<Rightarrow> jsstring" where
  "trimEnd s = rev (dropWhile is_ws (rev s))"

definition trim :: "jsstring \<Rightarrow> jsstring" where
  "trim s = trimEnd (trimStart s)"

text \<open>\<open>value.replace(/\s+/g, " ")\<close>: every maximal run of white space becomes one space.\<close>

function replace_ws_runs :: "jsstring \<Rightarrow> jsstring" where
  "replace_ws_runs [] = []"
| "replace_ws_runs (c # cs) =
     (if is_ws c then 32 # replace_ws_runs (dropWhile is_ws cs) else c # replace_ws_runs cs)"
  by pat_completeness auto
termination
  by (relation "measure length") (auto simp: length_dropWhile_le less_Suc_eq_le)

text \<open>\<open>normalizeText\<close> (page-utils.ts, line 73).\<close>

definition normalizeText :: "jsstring \<Rightarrow> jsstring" where
  "normalizeText v = trim (replace_ws_runs v)"

text \<open>\<open>a.includes(b)\<close>: \<open>b\<close> occurs in \<open>a\<close> as a contiguous run of code units.\<close>

fun js_includes :: "jsstring \<Rightarrow> jsstring \<Rightarrow> bool" where
  "js_includes [] b = (b = [])"
| "js_includes (x # a) b = (prefix b (x # a) \<or> js_includes a b)"

section \<open>Fingerprints\<close>

text \<open>
  \<open>ToInt32\<close>, the conversion that \<open><<\<close> and \<open>&\<close> apply to their operands and result:
  reduction modulo \<open>2^32\<close> into the signed range.
\<close>

definition to_int32 :: "int \<Rightarrow> int" where
  "to_int32 x = (x + 2147483648) mod 4294967296 - 2147483648"

text \<open>
  \<open>hashString\<close> (line 63). One round is \<open>hash = (hash << 5) - hash + char; hash = hash & hash\<close>:
  the shift wraps to 32 bits, the subtraction and addition are exact on numbers of this size,
  and \<open>hash & hash\<close> wraps again.
\<close>

definition hash_round :: "int \<Rightarrow> 16 word \<Rightarrow> int" where
  "hash_round hash c = to_int32 (to_int32 (hash * 32) - hash + uint c)"

definition hashString :: "jsstring \<Rightarrow> int" where
  "hashString str = foldl hash_round 0 str"

text \<open>
  The fingerprint of a text wherever it enters the known set or is tested against it:
  \<open>hashString(text.trim())\<close> (lines 460, 659 and 732).
\<close>

definition fingerprint :: "jsstring \<Rightarrow> int" where
  "fingerprint text = hashString (trim text)"

section \<open>Recognising the same answer\<close>

text \<open>\<open>isLikelySameAnswer\<close> (line 77).\<close>

definition isLikelySameAnswer :: "jsstring \<Rightarrow> jsstring \<Rightarrow> bool" where
  "isLikelySameAnswer candidate expected =
     (let a = normalizeText candidate; b = normalizeText expected in
      if a = [] \<or> b = [] then False
      else if a = b then True
      else if 80 \<le> length a \<and> 80 \<le> length b then js_includes a b \<or> js_includes b a
      else False)"

section \<open>The page as one poll observes it\<close>

text \<open>
  A page operation either returns a value or throws. \<open>Thrown r\<close> is an error \<open>e\<close> with
  \<open>isRecoverableBrowserError(e) = r\<close>. \<open>throwIfRecoverableBrowserError\<close> rethrows a
  recoverable error with the original message appended to a context, so the new error matches
  the (unanchored) pattern again: once recoverable, an error stays so through every enclosing
  \<open>catch\<close>, and leaves the call.
\<close>

datatype 'a attempt = Val 'a | Thrown bool

text \<open>
  A \<open>.to-user-container\<close>: the result of \<open>container.$(".message-text-content")\<close>
  (\<open>None\<close> for \<open>null\<close>) and, inside, of \<open>textElement.innerText()\<close>.
\<close>

type_synonym container = "jsstring attempt option attempt"

text \<open>
  An element matched by a fallback selector: the result of \<open>evaluateHandle\<close> with
  \<open>el.closest(...)\<close> followed by \<open>asElement()\<close> (\<open>None\<close> when there is no such
  ancestor, otherwise what \<open>innerText()\<close> of the ancestor gives), and the result of the
  element's own \<open>innerText()\<close>.
\<close>

record fb_element =
  fb_closest :: "jsstring attempt option attempt"
  fb_innerText :: "jsstring attempt"

text \<open>
  An element of the live document as the in-page script of the last resort reads it.
  \<open>lr_node\<close> is the identity of the element (for the \<open>Set<Element>\<close>); \<open>lr_opacity_zero\<close>
  is the value of \<open>parseFloat(style.opacity || "1") === 0\<close>.
\<close>

record lr_element =
  lr_node :: nat
  lr_isConnected :: bool
  lr_width :: rat
  lr_height :: rat
  lr_visibility :: string
  lr_display :: string
  lr_opacity_zero :: bool
  lr_innerText :: jsstring
  lr_textContent :: jsstring

record page_obs =
  p_containers :: "container list attempt"
  p_fallback :: "string \<Rightarrow> fb_element list attempt"
  p_document :: "(string \<Rightarrow> lr_element list) attempt"

definition RESPONSE_SELECTORS :: "string list" where
  "RESPONSE_SELECTORS =
     [''.to-user-container .message-text-content'',
      ''[data-message-author='bot']'',
      ''[data-message-author='assistant']'',
      ''[data-message-role='assistant']'',
      ''[data-author='assistant']'',
      ''[data-renderer*='assistant']'',
      ''[data-automation-id='response-text']'',
      ''[data-automation-id='assistant-response']'',
      ''[data-automation-id='chat-response']'',
      ''[data-testid*='assistant']'',
      ''[data-testid*='response']'',
      ''[aria-live='polite']'',
      ''[role='listitem'][data-message-author]'']"

section \<open>The candidate extractor\<close>

datatype extracted = Candidate jsstring | NoCandidate | ExtractThrows

text \<open>The scan of the primary containers (lines 651 to 679): the first new text wins.\<close>

fun scan_containers :: "int fset \<Rightarrow> container list \<Rightarrow> extracted" where
  "scan_containers known [] = NoCandidate"
| "scan_containers known (c # cs) =
     (case c of
        Thrown r \<Rightarrow> if r then ExtractThrows else scan_containers known cs
      | Val None \<Rightarrow> scan_containers known cs
      | Val (Some (Thrown r)) \<Rightarrow> if r then ExtractThrows else scan_containers known cs
      | Val (Some (Val text)) \<Rightarrow>
          if text \<noteq> [] \<and> trim text \<noteq> [] then
            (if fingerprint text |\<notin>| known then Candidate (trim text)
             else scan_containers known cs)
          else scan_containers known cs)"

text \<open>
  The primary path (lines 623 to 696). \<open>None\<close>: control leaves the \<open>try\<close> without a
  \<open>return\<close> and reaches the fallback selectors.
\<close>

definition primary_path :: "page_obs \<Rightarrow> int fset \<Rightarrow> extracted option" where
  "primary_path page known =
     (case p_containers page of
        Thrown r \<Rightarrow> if r then Some ExtractThrows else None
      | Val containers \<Rightarrow>
          if length containers \<le> fcard known then Some NoCandidate
          else if 0 < length containers then Some (scan_containers known containers)
          else None)"

text \<open>The text read for one fallback element (lines 712 to 731).\<close>

definition fallback_text :: "fb_element \<Rightarrow> jsstring attempt" where
  "fallback_text element =
     (case fb_closest element of
        Thrown r \<Rightarrow> if r then Thrown True else fb_innerText element
      | Val None \<Rightarrow> fb_innerText element
      | Val (Some text) \<Rightarrow> text)"

fun scan_elements :: "int fset \<Rightarrow> fb_element list \<Rightarrow> extracted" where
  "scan_elements known [] = NoCandidate"
| "scan_elements known (element # elements) =
     (case fallback_text element of
        Thrown r \<Rightarrow> if r then ExtractThrows else scan_elements known elements
      | Val text \<Rightarrow>
          if text \<noteq> [] \<and> trim text \<noteq> [] \<and> fingerprint text |\<notin>| known
          then Candidate (trim text)
          else scan_elements known elements)"

text \<open>The fallback selectors in priority order (lines 703 to 750).\<close>

fun fallback_path :: "page_obs \<Rightarrow> int fset \<Rightarrow> string list \<Rightarrow> extracted" where
  "fallback_path page known [] = NoCandidate"
| "fallback_path page known (selector # selectors) =
     (case p_fallback page selector of
        Thrown r \<Rightarrow> if r then ExtractThrows else fallback_path page known selectors
      | Val elements \<Rightarrow>
          (case scan_elements known elements of
             NoCandidate \<Rightarrow> fallback_path page known selectors
           | Candidate text \<Rightarrow> Candidate text
           | ExtractThrows \<Rightarrow> ExtractThrows))"

text \<open>The in-page script of the last resort (lines 754 to 805).\<close>

definition lr_isVisible :: "lr_element \<Rightarrow> bool" where
  "lr_isVisible el =
     (if \<not> lr_isConnected el then False
      else if lr_width el = 0 \<or> lr_height el = 0 then False
      else if lr_visibility el = ''hidden'' \<or> lr_display el = ''none'' \<or> lr_opacity_zero el
      then False
      else True)"

definition lr_selectors :: "string list" where
  "lr_selectors =
     [''[data-message-author]'',
      ''[data-message-role]'',
      ''[data-author]'',
      ''[data-renderer*='assistant']'',
      ''[data-testid*='assistant']'',
      ''[data-automation-id*='response']'']"

fun lr_scan :: "lr_element list \<Rightarrow> nat fset \<times> jsstring list \<Rightarrow> nat fset \<times> jsstring list" where
  "lr_scan [] (unique, candidates) = (unique, candidates)"
| "lr_scan (el # els) (unique, candidates) =
     (if \<not> lr_isVisible el then lr_scan els (unique, candidates)
      else if lr_node el |\<in>| unique then lr_scan els (unique, candidates)
      else
        let text = (if lr_innerText el \<noteq> [] then lr_innerText el else lr_textContent el) in
        if trim text = [] then lr_scan els (finsert (lr_node el) unique, candidates)
        else lr_scan els (finsert (lr_node el) unique, candidates @ [trim text]))"

definition lr_script :: "(string \<Rightarrow> lr_element list) \<Rightarrow> jsstring option" where
  "lr_script document =
     (let candidates = snd (fold (\<lambda>selector. lr_scan (document selector)) lr_selectors ({||}, []))
      in if 0 < length candidates then Some (last candidates) else None)"

definition last_resort_path :: "page_obs \<Rightarrow> extracted" where
  "last_resort_path page =
     (case p_document page of
        Thrown r \<Rightarrow> if r then ExtractThrows else NoCandidate
      | Val document \<Rightarrow>
          (case lr_script document of
             None \<Rightarrow> NoCandidate
           | Some fallbackText \<Rightarrow>
               if trim fallbackText \<noteq> [] then Candidate (trim fallbackText) else NoCandidate))"

text \<open>
  \<open>extractLatestText\<close> (line 617). Its parameters \<open>debug\<close> and \<open>pollCount\<close> only select
  log lines and are left out.
\<close>

definition extractLatestText :: "page_obs \<Rightarrow> int fset \<Rightarrow> extracted" where
  "extractLatestText page known =
     (case primary_path page known of
        Some result \<Rightarrow> result
      | None \<Rightarrow>
          (case fallback_path page known RESPONSE_SELECTORS of
             NoCandidate \<Rightarrow> last_resort_path page
           | Candidate text \<Rightarrow> Candidate text
           | ExtractThrows \<Rightarrow> ExtractThrows))"

section \<open>The streaming stabilizer\<close>

datatype error = PageUnresponsive | PollGuardExceeded | RecoverableBrowserError | UnclassifiedError

datatype outcome = Answer jsstring | NoAnswer | Throws error

text \<open>
  The options of \<open>waitForLatestAnswer\<close>; times are whole milliseconds. \<open>debug\<close> only
  selects log lines and is left out.
\<close>

record options =
  question :: jsstring
  timeoutMs :: int
  pollIntervalMs :: int
  ignoreTexts :: "jsstring list"

definition default_options :: options where
  "default_options = \<lparr>question = [], timeoutMs = 120000, pollIntervalMs = 1000, ignoreTexts = []\<rparr>"

text \<open>
  What \<open>page.waitForTimeout\<close> did: it threw, or it returned after the given number of
  milliseconds (the difference of the two \<open>Date.now()\<close> readings around it).
\<close>

datatype wait_obs = WaitThrows bool | Waited int

text \<open>
  What one iteration of the loop meets: whether the page answers the liveness probe of the
  tenth poll, the thinking indicator (\<open>page.$('div.thinking-message')\<close>, then
  \<open>isVisible()\<close>), the wait of the thinking branch, the page the extractor reads, the wait of
  the echo branch or of the end of the iteration, and whether the page answers the probe
  after a streak of early waits.
\<close>

record poll_obs =
  o_responsive :: bool
  o_thinking :: "bool attempt option attempt"
  o_thinking_wait :: wait_obs
  o_page :: page_obs
  o_wait :: wait_obs
  o_streak_responsive :: bool

text \<open>
  The world of one call: the clock when the deadline is computed, at the loop test that finds
  \<open>pollCount = k\<close>, and at the test after the loop; and what poll \<open>k\<close> (counted from 1) meets.
\<close>

record world =
  now_start :: int
  now_loop :: "nat \<Rightarrow> int"
  now_exit :: int
  polls :: "nat \<Rightarrow> poll_obs"

text \<open>
  The constants of one call (lines 450 to 454). \<open>toLowerCase\<close> is the host language's
  \<open>String.prototype.toLowerCase\<close>, a parameter of the model.
\<close>

record config =
  toLowerCase :: "jsstring \<Rightarrow> jsstring"
  safePollIntervalMs :: int
  maxPolls :: int
  deadline :: int
  sanitizedQuestion :: jsstring

text \<open>The variables of the loop beside \<open>pollCount\<close> (lines 457 and 471 to 474).\<close>

record poll_state =
  lastCandidate :: "jsstring option"
  stableCount :: nat
  fastPollStreak :: nat
  knownHashes :: "int fset"

datatype step = Continue poll_state | Stop outcome

text \<open>
  \<open>waitForPollInterval\<close> (line 106), on the streak counter: a recoverable error is rethrown
  wrapped, any other as it is; a wait that returned more than 50 ms early is slept out and
  counted, any other resets the streak.
\<close>

definition waitForPollInterval :: "int \<Rightarrow> wait_obs \<Rightarrow> nat \<Rightarrow> error + nat" where
  "waitForPollInterval pollInterval w streak =
     (case w of
        WaitThrows r \<Rightarrow> Inl (if r then RecoverableBrowserError else UnclassifiedError)
      | Waited waitedMs \<Rightarrow> if 50 < pollInterval - waitedMs then Inr (streak + 1) else Inr 0)"

text \<open>
  The thinking indicator (lines 484 to 507). \<open>None\<close>: the iteration goes on to the extractor,
  also when an error that is not recoverable was caught, the one of the wait included.
\<close>

definition thinking_check :: "config \<Rightarrow> poll_obs \<Rightarrow> poll_state \<Rightarrow> step option" where
  "thinking_check c ob s =
     (case o_thinking ob of
        Thrown r \<Rightarrow> if r then Some (Stop (Throws RecoverableBrowserError)) else None
      | Val None \<Rightarrow> None
      | Val (Some (Thrown r)) \<Rightarrow> if r then Some (Stop (Throws RecoverableBrowserError)) else None
      | Val (Some (Val isVisible)) \<Rightarrow>
          if isVisible then
            (case waitForPollInterval (safePollIntervalMs c) (o_thinking_wait ob) (fastPollStreak s) of
               Inl e \<Rightarrow> if e = RecoverableBrowserError then Some (Stop (Throws e)) else None
             | Inr streak \<Rightarrow> Some (Continue (s\<lparr>fastPollStreak := streak\<rparr>)))
          else None)"

text \<open>Streaming detection (lines 535 to 552).\<close>

definition track_stability :: "poll_state \<Rightarrow> jsstring \<Rightarrow> poll_state" where
  "track_stability s normalized =
     (if Some normalized = lastCandidate s then s\<lparr>stableCount := stableCount s + 1\<rparr>
      else s\<lparr>stableCount := 1, lastCandidate := Some normalized\<rparr>)"

text \<open>The end of an iteration (lines 564 to 569).\<close>

definition end_of_iteration :: "config \<Rightarrow> poll_obs \<Rightarrow> poll_state \<Rightarrow> step" where
  "end_of_iteration c ob s =
     (case waitForPollInterval (safePollIntervalMs c) (o_wait ob) (fastPollStreak s) of
        Inl e \<Rightarrow> Stop (Throws e)
      | Inr streak \<Rightarrow>
          if 5 \<le> streak then
            (if o_streak_responsive ob then Continue (s\<lparr>fastPollStreak := 0\<rparr>)
             else Stop (Throws PageUnresponsive))
          else Continue (s\<lparr>fastPollStreak := streak\<rparr>))"

text \<open>From the extractor's result to the end of the iteration (lines 510 to 569).\<close>

definition handle_candidate :: "config \<Rightarrow> poll_obs \<Rightarrow> poll_state \<Rightarrow> extracted \<Rightarrow> step" where
  "handle_candidate c ob s result =
     (case result of
        ExtractThrows \<Rightarrow> Stop (Throws RecoverableBrowserError)
      | NoCandidate \<Rightarrow> end_of_iteration c ob s
      | Candidate candidate \<Rightarrow>
          if candidate \<noteq> [] then
            (let normalized = trim candidate in
             if normalized \<noteq> [] then
               (let lower = toLowerCase c normalized in
                if lower = sanitizedQuestion c then
                  (case waitForPollInterval (safePollIntervalMs c) (o_wait ob) (fastPollStreak s) of
                     Inl e \<Rightarrow> Stop (Throws e)
                   | Inr streak \<Rightarrow>
                       Continue (s\<lparr>knownHashes := finsert (hashString normalized) (knownHashes s),
                                   fastPollStreak := streak\<rparr>))
                else
                  (let s' = track_stability s normalized in
                   if 3 \<le> stableCount s' then Stop (Answer normalized)
                   else end_of_iteration c ob s'))
             else end_of_iteration c ob s)
          else end_of_iteration c ob s)"

text \<open>The body of the loop (lines 477 to 569), with \<open>pollCount\<close> already incremented.\<close>

definition iteration :: "config \<Rightarrow> poll_obs \<Rightarrow> nat \<Rightarrow> poll_state \<Rightarrow> step" where
  "iteration c ob pollCount s =
     (if pollCount mod 10 = 0 \<and> \<not> o_responsive ob then Stop (Throws PageUnresponsive)
      else
        (case thinking_check c ob s of
           Some st \<Rightarrow> st
         | None \<Rightarrow> handle_candidate c ob s (extractLatestText (o_page ob) (knownHashes s))))"

text \<open>
  The loop (line 476). \<open>Inl\<close>: an iteration returned or threw; \<open>Inr\<close>: the loop test
  failed, with the value of \<open>pollCount\<close> then.
\<close>

function loop :: "world \<Rightarrow> config \<Rightarrow> nat \<Rightarrow> poll_state \<Rightarrow> outcome + nat" where
  "loop w c pollCount s =
     (if now_loop w pollCount < deadline c \<and> int pollCount < maxPolls c then
        (case iteration c (polls w (Suc pollCount)) (Suc pollCount) s of
           Continue s' \<Rightarrow> loop w c (Suc pollCount) s'
         | Stop out \<Rightarrow> Inl out)
      else Inr pollCount)"
  by pat_completeness auto
termination
  by (relation "measure (\<lambda>(w, c, pollCount, s). nat (maxPolls c) - pollCount)") auto

text \<open>The known set seeded from the caller's texts (lines 457 to 462).\<close>

definition seed_known :: "jsstring list \<Rightarrow> int fset" where
  "seed_known texts =
     fold (\<lambda>text known. if trim text \<noteq> [] then finsert (fingerprint text) known else known)
       texts {||}"

text \<open>\<open>Math.ceil(a / b)\<close> on whole numbers, for a positive \<open>b\<close>.\<close>

definition ceil_div :: "int \<Rightarrow> int \<Rightarrow> int" where
  "ceil_div a b = - ((- a) div b)"

definition config_of :: "(jsstring \<Rightarrow> jsstring) \<Rightarrow> world \<Rightarrow> options \<Rightarrow> config" where
  "config_of lc w opts =
     (let safePollInterval = max 100 (pollIntervalMs opts);
          expectedPolls = ceil_div (timeoutMs opts) safePollInterval
      in \<lparr>toLowerCase = lc,
          safePollIntervalMs = safePollInterval,
          maxPolls = max 120 (expectedPolls * 5),
          deadline = now_start w + timeoutMs opts,
          sanitizedQuestion = lc (trim (question opts))\<rparr>)"

definition initial_state :: "options \<Rightarrow> poll_state" where
  "initial_state opts =
     \<lparr>lastCandidate = None, stableCount = 0, fastPollStreak = 0,
      knownHashes = seed_known (ignoreTexts opts)\<rparr>"

text \<open>After the loop (lines 572 to 581).\<close>

definition after_loop :: "world \<Rightarrow> config \<Rightarrow> nat \<Rightarrow> outcome" where
  "after_loop w c pollCount =
     (if maxPolls c \<le> int pollCount \<and> now_exit w < deadline c then Throws PollGuardExceeded
      else NoAnswer)"

text \<open>\<open>waitForLatestAnswer\<close> (line 432).\<close>

definition waitForLatestAnswer :: "(jsstring \<Rightarrow> jsstring) \<Rightarrow> world \<Rightarrow> options \<Rightarrow> outcome" where
  "waitForLatestAnswer lc w opts =
     (let c = config_of lc w opts in
      case loop w c 0 (initial_state opts) of
        Inl out \<Rightarrow> out
      | Inr pollCount \<Rightarrow> after_loop w c pollCount)"

text \<open>
  What an iteration feeds to the streaming detection: the trimmed candidate, when the
  iteration reaches the comparison with \<open>lastCandidate\<close>, and nothing otherwise (failed probe,
  thinking indicator, no candidate, question echo).
\<close>

definition compared :: "config \<Rightarrow> poll_obs \<Rightarrow> nat \<Rightarrow> poll_state \<Rightarrow> jsstring option" where
  "compared c ob pollCount s =
     (if pollCount mod 10 = 0 \<and> \<not> o_responsive ob then None
      else
        (case thinking_check c ob s of
           Some st \<Rightarrow> None
         | None \<Rightarrow>
             (case extractLatestText (o_page ob) (knownHashes s) of
                Candidate candidate \<Rightarrow>
                  if trim candidate \<noteq> [] \<and> toLowerCase c (trim candidate) \<noteq> sanitizedQuestion c
                  then Some (trim candidate) else None
              | NoCandidate \<Rightarrow> None
              | ExtractThrows \<Rightarrow> None)))"

text \<open>The list of these, one entry for each iteration the loop runs.\<close>

function observations :: "world \<Rightarrow> config \<Rightarrow> nat \<Rightarrow> poll_state \<Rightarrow> jsstring option list" where
  "observations w c pollCount s =
     (if now_loop w pollCount < deadline c \<and> int pollCount < maxPolls c then
        compared c (polls w (Suc pollCount)) (Suc pollCount) s #
        (case iteration c (polls w (Suc pollCount)) (Suc pollCount) s of
           Continue s' \<Rightarrow> observations w c (Suc pollCount) s'
         | Stop out \<Rightarrow> [])
      else [])"
  by pat_completeness auto
termination
  by (relation "measure (\<lambda>(w, c, pollCount, s). nat (maxPolls c) - pollCount)") auto

section \<open>Counting response elements\<close>

text \<open>
  \<open>countResponseElements\<close> (line 390) sees, for a selector, what \<open>page.$$\<close> gives and, for
  each element, what \<open>isVisible()\<close> gives. Both \<open>catch\<close> clauses swallow every error.
\<close>

fun count_visible :: "bool attempt list \<Rightarrow> nat \<Rightarrow> nat" where
  "count_visible [] count = count"
| "count_visible (el # els) count =
     (case el of
        Thrown r \<Rightarrow> count_visible els count
      | Val isVisible \<Rightarrow> if isVisible then count_visible els (count + 1) else count_visible els count)"

fun count_selectors :: "(string \<Rightarrow> bool attempt list attempt) \<Rightarrow> string list \<Rightarrow> nat \<Rightarrow> nat" where
  "count_selectors page [] count = count"
| "count_selectors page (selector # selectors) count =
     (case page selector of
        Thrown r \<Rightarrow> count_selectors page selectors count
      | Val elements \<Rightarrow>
          if 0 < length elements then
            (let count' = count_visible elements count in
             if 0 < count' then count' else count_selectors page selectors count')
          else count_selectors page selectors count)"

definition countResponseElements :: "(string \<Rightarrow> bool attempt list attempt) \<Rightarrow> nat" where
  "countResponseElements page = count_selectors page RESPONSE_SELECTORS 0"

text \<open>The number of elements a selector matches that report themselves visible.\<close>

definition visible_matches :: "(string \<Rightarrow> bool attempt list attempt) \<Rightarrow> string \<Rightarrow> nat" where
  "visible_matches page selector =
     (case page selector of
        Thrown r \<Rightarrow> 0
      | Val elements \<Rightarrow> length (filter (\<lambda>el. el = Val True) elements))"

section \<open>Source references\<close>

subsection \<open>The regular expressions of the in-page script\<close>

text \<open>
  The fragment of regular expressions the script uses, matched as the host language does:
  by backtracking, alternatives from left to right and quantifiers greedy. \<open>rx_rests r s\<close>
  lists, in that order, what is left of \<open>s\<close> after each way \<open>r\<close> matches a prefix of it.
\<close>

datatype rx =
    Lit jsstring
  | Cls "16 word \<Rightarrow> bool"
  | Many0 "16 word \<Rightarrow> bool"
  | Many1 "16 word \<Rightarrow> bool"
  | Cat rx rx
  | Or rx rx
  | Maybe rx

fun rx_rests :: "rx \<Rightarrow> jsstring \<Rightarrow> jsstring list" where
  "rx_rests (Lit l) s = (if prefix l s then [drop (length l) s] else [])"
| "rx_rests (Cls P) s = (case s of [] \<Rightarrow> [] | c # cs \<Rightarrow> if P c then [cs] else [])"
| "rx_rests (Many0 P) s = map (\<lambda>k. drop k s) (rev [0..<Suc (length (takeWhile P s))])"
| "rx_rests (Many1 P) s = map (\<lambda>k. drop k s) (rev [1..<Suc (length (takeWhile P s))])"
| "rx_rests (Cat a b) s = concat (map (rx_rests b) (rx_rests a s))"
| "rx_rests (Or a b) s = rx_rests a s @ rx_rests b s"
| "rx_rests (Maybe a) s = rx_rests a s @ [s]"

text \<open>\<open>/^r$/.test(s)\<close>, \<open>/^r/.test(s)\<close> and \<open>s.replace(/^r/, "")\<close>.\<close>

definition rx_test_whole :: "rx \<Rightarrow> jsstring \<Rightarrow> bool" where
  "rx_test_whole r s \<longleftrightarrow> [] \<in> set (rx_rests r s)"

definition rx_test_start :: "rx \<Rightarrow> jsstring \<Rightarrow> bool" where
  "rx_test_start r s \<longleftrightarrow> rx_rests r s \<noteq> []"

definition rx_strip_start :: "rx \<Rightarrow> jsstring \<Rightarrow> jsstring" where
  "rx_strip_start r s = (case rx_rests r s of [] \<Rightarrow> s | rest # others \<Rightarrow> rest)"

definition is_digit :: "16 word \<Rightarrow> bool" where
  "is_digit c \<longleftrightarrow> 48 \<le> c \<and> c \<le> 57"

text \<open>\<open>\s*\d+\s*[:.)-]\s*\<close>\<close>

definition citation_prefix_rx :: rx where
  "citation_prefix_rx =
     Cat (Many0 is_ws) (Cat (Many1 is_digit) (Cat (Many0 is_ws)
       (Cat (Cls (\<lambda>c. c = 58 \<or> c = 46 \<or> c = 41 \<or> c = 45)) (Many0 is_ws))))"

text \<open>\<open>https?:\<close> under the flag \<open>i\<close>\<close>

definition http_scheme_rx :: rx where
  "http_scheme_rx =
     Cat (Cls (\<lambda>c. c = 104 \<or> c = 72)) (Cat (Cls (\<lambda>c. c = 116 \<or> c = 84))
       (Cat (Cls (\<lambda>c. c = 116 \<or> c = 84)) (Cat (Cls (\<lambda>c. c = 112 \<or> c = 80))
         (Cat (Maybe (Cls (\<lambda>c. c = 115 \<or> c = 83))) (Lit (js '':'')))))) "

text \<open>\<open>citations?\<close>\<close>

definition citations_rx :: rx where
  "citations_rx = Cat (Lit (js ''citation'')) (Maybe (Lit (js ''s'')))"

text \<open>\<open>(show|hide)\<close>\<close>

definition show_hide_rx :: rx where
  "show_hide_rx = Or (Lit (js ''show'')) (Lit (js ''hide''))"

definition stripCitationPrefix :: "jsstring \<Rightarrow> jsstring" where
  "stripCitationPrefix v = trim (rx_strip_start citation_prefix_rx v)"

definition isNumericOnly :: "jsstring \<Rightarrow> bool" where
  "isNumericOnly v = rx_test_whole (Many1 is_digit) v"

text \<open>\<open>isNoiseLabel\<close> (line 147); the class of the first test is \<open>[.\<dots>\<cdot>\<bullet>]\<close>.\<close>

definition isNoiseLabel :: "(jsstring \<Rightarrow> jsstring) \<Rightarrow> jsstring \<Rightarrow> bool" where
  "isNoiseLabel lc v =
     (let normalized = trim (lc v) in
      if normalized = [] then True
      else if rx_test_whole (Many1 (\<lambda>c. c = 46 \<or> c = 8230 \<or> c = 183 \<or> c = 8226)) normalized
      then True
      else if rx_test_whole (Or (Lit (js ''citation details''))
                (Lit (js ''click to open citation details''))) normalized
      then True
      else if rx_test_whole (Cat show_hide_rx (Cat (Many1 is_ws)
                (Cat (Maybe (Cat (Lit (js ''additional'')) (Many1 is_ws))) citations_rx))) normalized
      then True
      else if rx_test_whole (Cat show_hide_rx (Cat (Many1 is_ws)
                (Cat (Lit (js ''more'')) (Cat (Many1 is_ws) citations_rx)))) normalized
      then True
      else if rx_test_whole (Cat (Lit (js ''more'')) (Cat (Many1 is_ws) citations_rx)) normalized
      then True
      else False)"

subsection \<open>The answer container\<close>

text \<open>
  An element as the script reads it: \<open>tagName\<close>, the \<open>href\<close> property (empty when there is
  none), \<open>getAttribute\<close> (\<open>None\<close> for \<open>null\<close>), \<open>innerText\<close> and \<open>textContent\<close>.
\<close>

record element =
  e_tagName :: jsstring
  e_href :: jsstring
  e_getAttribute :: "string \<Rightarrow> jsstring option"
  e_innerText :: jsstring
  e_textContent :: jsstring

text \<open>
  The container as the script queries it: the anchors with an \<open>href\<close>, the citation markers,
  each with its descendants that carry \<open>aria-label\<close> or \<open>title\<close>, and the elements each
  source-like selector matches.
\<close>

record container_dom =
  d_anchors :: "element list"
  d_markers :: "(element \<times> element list) list"
  d_sourceLike :: "string \<Rightarrow> element list"

record source_ref =
  title :: jsstring
  url :: "jsstring option"
  raw_text :: jsstring

text \<open>\<open>a || b\<close> on strings, and \<open>String(value || "")\<close> on a string or \<open>null\<close>.\<close>

definition js_or :: "jsstring \<Rightarrow> jsstring \<Rightarrow> jsstring" where
  "js_or a b = (if a \<noteq> [] then a else b)"

definition string_or_empty :: "jsstring option \<Rightarrow> jsstring" where
  "string_or_empty v = (case v of None \<Rightarrow> [] | Some x \<Rightarrow> x)"

definition sourceLikeSelectors :: "string list" where
  "sourceLikeSelectors =
     [''[data-testid*='source']'',
      ''[data-testid*='citation']'',
      ''[data-automation-id*='source']'',
      ''[data-automation-id*='citation']'',
      ''[aria-label*='Source']'',
      ''[aria-label*='source']'',
      ''[title*='Source']'',
      ''[title*='source']'',
      ''.source-chip'',
      ''.citation-chip'',
      ''.source-item'',
      ''.citation-item'',
      ''.citation-marker'',
      ''button[dialoglabel*='Citation']'',
      ''button[triggerdescription*='citation']'']"

text \<open>
  \<open>addRef\<close> (line 158) on the set \<open>unique\<close> and the list \<open>refs\<close>. The script's own
  \<open>normalize\<close> is \<open>normalizeText\<close> again.
\<close>

definition addRef ::
  "(jsstring \<Rightarrow> jsstring) \<Rightarrow> jsstring \<Rightarrow> jsstring option \<Rightarrow> jsstring \<Rightarrow>
   jsstring fset \<times> source_ref list \<Rightarrow> jsstring fset \<times> source_ref list" where
  "addRef lc title' url' rawText st =
     (let normalizedTitle = stripCitationPrefix (normalizeText title');
          normalizedRaw = normalizeText (js_or rawText normalizedTitle);
          normalizedUrl = normalizeText (string_or_empty url')
      in if normalizedTitle = [] \<and> normalizedUrl = [] then st
         else if normalizedUrl = [] \<and>
                 (isNoiseLabel lc normalizedTitle \<or> isNumericOnly normalizedTitle) then st
         else
           (let key = lc normalizedTitle @ js ''|'' @ lc normalizedUrl in
            if key |\<in>| fst st then st
            else (finsert key (fst st),
                  snd st @
                  [\<lparr>title = js_or normalizedTitle (js_or normalizedUrl (js ''Untitled source'')),
                    url = (if normalizedUrl \<noteq> [] then Some normalizedUrl else None),
                    raw_text = js_or normalizedRaw (js_or normalizedTitle normalizedUrl)\<rparr>])))"

text \<open>The pass over the anchors (lines 183 to 193).\<close>

definition anchor_pass ::
  "(jsstring \<Rightarrow> jsstring) \<Rightarrow> element \<Rightarrow>
   jsstring fset \<times> source_ref list \<Rightarrow> jsstring fset \<times> source_ref list" where
  "anchor_pass lc anchor st =
     (let href = js_or (e_href anchor) (string_or_empty (e_getAttribute anchor ''href''));
          text = js_or (e_innerText anchor) (e_textContent anchor)
      in if href = [] then st
         else if \<not> rx_test_start http_scheme_rx href then st
         else addRef lc (js_or text href) (Some href) (js_or text href) st)"

text \<open>The pass over the citation markers (lines 195 to 225).\<close>

definition pushCandidate ::
  "(jsstring \<Rightarrow> jsstring) \<Rightarrow> jsstring option \<Rightarrow> jsstring list \<Rightarrow> jsstring list" where
  "pushCandidate lc v labelCandidates =
     (let normalized = normalizeText (string_or_empty v) in
      if normalized = [] \<or> isNoiseLabel lc normalized then labelCandidates
      else labelCandidates @ [normalized])"

definition marker_labels :: "(jsstring \<Rightarrow> jsstring) \<Rightarrow> element \<times> element list \<Rightarrow> jsstring list" where
  "marker_labels lc m =
     (let marker = fst m;
          l1 = pushCandidate lc (e_getAttribute marker ''aria-label'') [];
          l2 = pushCandidate lc (e_getAttribute marker ''title'') l1;
          l3 = pushCandidate lc (e_getAttribute marker ''dialoglabel'') l2;
          l4 = pushCandidate lc (e_getAttribute marker ''triggerdescription'') l3;
          l5 = pushCandidate lc (Some (js_or (e_innerText marker) (e_textContent marker))) l4
      in fold (\<lambda>child l. pushCandidate lc (e_getAttribute child ''title'')
                           (pushCandidate lc (e_getAttribute child ''aria-label'') l))
           (snd m) l5)"

definition marker_pass ::
  "(jsstring \<Rightarrow> jsstring) \<Rightarrow> element \<times> element list \<Rightarrow>
   jsstring fset \<times> source_ref list \<Rightarrow> jsstring fset \<times> source_ref list" where
  "marker_pass lc m st =
     fold (\<lambda>candidate st'.
             let cleanedTitle = stripCitationPrefix candidate in
             if cleanedTitle \<noteq> [] \<and> \<not> isNoiseLabel lc cleanedTitle \<and> \<not> isNumericOnly cleanedTitle
             then addRef lc cleanedTitle None candidate st'
             else st')
       (marker_labels lc m) st"

text \<open>The pass over the source-like elements (lines 245 to 257).\<close>

definition source_like_pass ::
  "(jsstring \<Rightarrow> jsstring) \<Rightarrow> element \<Rightarrow>
   jsstring fset \<times> source_ref list \<Rightarrow> jsstring fset \<times> source_ref list" where
  "source_like_pass lc el st =
     (if lc (e_tagName el) = js ''a'' then st
      else
        (let text = js_or (e_innerText el) (e_textContent el);
             cleaned = normalizeText text
         in if cleaned = [] then st else addRef lc cleaned None cleaned st))"

text \<open>The in-page script (lines 138 to 260).\<close>

definition in_page_sources :: "(jsstring \<Rightarrow> jsstring) \<Rightarrow> container_dom \<Rightarrow> source_ref list" where
  "in_page_sources lc node =
     (let st1 = fold (anchor_pass lc) (d_anchors node) ({||}, []);
          st2 = fold (marker_pass lc) (d_markers node) st1;
          st3 = fold (\<lambda>selector. fold (source_like_pass lc) (d_sourceLike node selector))
                  sourceLikeSelectors st2
      in take 30 (snd st3))"

text \<open>The final pass on the host side (lines 266 to 273).\<close>

definition renormalize :: "source_ref \<Rightarrow> source_ref" where
  "renormalize source =
     \<lparr>title = normalizeText (title source),
      url = (case url source of
               None \<Rightarrow> None
             | Some u \<Rightarrow> if u \<noteq> [] then Some (normalizeText u) else None),
      raw_text = normalizeText (js_or (raw_text source) (title source))\<rparr>"

text \<open>
  \<open>extractSourcesFromContainer\<close> (line 137); \<open>container.evaluate\<close> may throw, and nothing
  here catches it.
\<close>

definition extractSourcesFromContainer ::
  "(jsstring \<Rightarrow> jsstring) \<Rightarrow> container_dom attempt \<Rightarrow> source_ref list attempt" where
  "extractSourcesFromContainer lc container =
     (case container of
        Thrown r \<Rightarrow> Thrown r
      | Val node \<Rightarrow>
          Val (take 30 (filter (\<lambda>source. 0 < length (title source))
                 (map renormalize (in_page_sources lc node)))))"

text \<open>
  \<open>toLowerCase\<close> on strings of code units below 128, where it only maps \<open>A\<close> to \<open>Z\<close>
  onto \<open>a\<close> to \<open>z\<close>; used to run the model on concrete ASCII inputs.
\<close>

definition asciiLower :: "jsstring \<Rightarrow> jsstring" where
  "asciiLower s = map (\<lambda>c. if 65 \<le> c \<and> c \<le> 90 then c + 32 else c) s"

section \<open>Concrete pages and worlds\<close>

text \<open>A page with no answer container, and a page with one container showing a text.\<close>

definition empty_page :: page_obs where
  "empty_page = \<lparr>p_containers = Val [], p_fallback = (\<lambda>selector. Val []), p_document = Val (\<lambda>selector. [])\<rparr>"

definition page_showing :: "jsstring \<Rightarrow> page_obs" where
  "page_showing text =
     \<lparr>p_containers = Val [Val (Some (Val text))], p_fallback = (\<lambda>selector. Val []),
      p_document = Val (\<lambda>selector. [])\<rparr>"

text \<open>A poll on a responsive page with no thinking indicator and waits of full length.\<close>

definition quiet_poll :: "page_obs \<Rightarrow> poll_obs" where
  "quiet_poll page =
     \<lparr>o_responsive = True, o_thinking = Val None, o_thinking_wait = Waited 1000,
      o_page = page, o_wait = Waited 1000, o_streak_responsive = True\<rparr>"

text \<open>A world whose clock advances by one second per poll and whose page always shows one text.\<close>

definition steady_world :: "jsstring \<Rightarrow> world" where
  "steady_world text =
     \<lparr>now_start = 0, now_loop = (\<lambda>k. 1000 * int k), now_exit = 0,
      polls = (\<lambda>k. quiet_poll (page_showing text))\<rparr>"

text \<open>Elements of a page with visible matches only under the second and the third selector.\<close>

definition later_selectors_page :: "string \<Rightarrow> bool attempt list attempt" where
  "later_selectors_page selector =
     (if selector = ''[data-message-author='bot']'' then Val [Val True, Val False, Thrown False, Val True]
      else if selector = ''[data-message-author='assistant']'' then Val [Val True, Val True, Val True]
      else if selector = ''.to-user-container .message-text-content'' then Val [Val False]
      else Thrown False)"

text \<open>A page with the given containers, on which no other selector matches.\<close>

definition page_with :: "container list \<Rightarrow> page_obs" where
  "page_with containers =
     \<lparr>p_containers = Val containers, p_fallback = (\<lambda>selector. Val []),
      p_document = Val (\<lambda>selector. [])\<rparr>"

text \<open>
  The page shows the answer \<open>Paris\<close> at every poll. From the second poll on a container with
  the question stands before it, and at the fourth poll the answer cannot be read for the
  moment (\<open>innerText()\<close> throws an error that is not recoverable).
\<close>

definition interrupted_world :: world where
  "interrupted_world =
     \<lparr>now_start = 0, now_loop = (\<lambda>k. 1000 * int k), now_exit = 0,
      polls = (\<lambda>k. quiet_poll (page_with
        (if k = 1 then [Val (Some (Val (js ''Paris'')))]
         else if k = 4 then
           [Val (Some (Val (js ''What is the capital of France?''))), Val (Some (Thrown False))]
         else
           [Val (Some (Val (js ''What is the capital of France?''))),
            Val (Some (Val (js ''Paris'')))])))\<rparr>"

text \<open>The text grows over the first polls and then stays.\<close>

definition streaming_world :: world where
  "streaming_world =
     \<lparr>now_start = 0, now_loop = (\<lambda>k. 1000 * int k), now_exit = 0,
      polls = (\<lambda>k. quiet_poll (page_showing
                (if k = 1 then js ''Par'' else if k = 2 then js ''Paris is''
                 else js ''Paris is the capital.'')))\<rparr>"

text \<open>A clock that does not advance, with waits that return at once; the page stays empty.\<close>

definition stuck_clock_world :: world where
  "stuck_clock_world =
     \<lparr>now_start = 0, now_loop = (\<lambda>k. 0), now_exit = 0,
      polls = (\<lambda>k. (quiet_poll empty_page)\<lparr>o_wait := Waited 0\<rparr>)\<rparr>"

text \<open>An empty page under a clock that advances by one second per poll.\<close>

definition timeout_world :: world where
  "timeout_world =
     \<lparr>now_start = 0, now_loop = (\<lambda>k. 1000 * int k), now_exit = 2000,
      polls = (\<lambda>k. quiet_poll empty_page)\<rparr>"

text \<open>
  Every \<open>page.$$\<close> throws an error that is not recoverable, while \<open>page.evaluate\<close> works
  and the document has one visible element with an author attribute.
\<close>

definition last_resort_page :: "jsstring \<Rightarrow> page_obs" where
  "last_resort_page text =
     \<lparr>p_containers = Thrown False, p_fallback = (\<lambda>selector. Thrown False),
      p_document = Val (\<lambda>selector.
        if selector = ''[data-message-author]'' then
          [\<lparr>lr_node = 0, lr_isConnected = True, lr_width = 600, lr_height = 40,
            lr_visibility = ''visible'', lr_display = ''block'', lr_opacity_zero = False,
            lr_innerText = text, lr_textContent = text\<rparr>]
        else [])\<rparr>"

definition last_resort_world :: world where
  "last_resort_world =
     \<lparr>now_start = 0, now_loop = (\<lambda>k. 1000 * int k), now_exit = 0,
      polls = (\<lambda>k. quiet_poll (last_resort_page (js ''Old answer'')))\<rparr>"

text \<open>Two containers: an answer the caller already knows, and a new one.\<close>

definition two_answers_world :: world where
  "two_answers_world =
     \<lparr>now_start = 0, now_loop = (\<lambda>k. 1000 * int k), now_exit = 0,
      polls = (\<lambda>k. quiet_poll
        \<lparr>p_containers = Val [Val (Some (Val (js ''Old answer''))), Val (Some (Val (js ''Paris'')))],
         p_fallback = (\<lambda>selector. Val []), p_document = Val (\<lambda>selector. [])\<rparr>)\<rparr>"

text \<open>A call whose question the page echoes.\<close>

definition echo_options :: options where
  "echo_options = default_options\<lparr>question := js ''What is the capital of France?''\<rparr>"

definition echo_config :: config where
  "echo_config =
     config_of asciiLower (steady_world (js ''What is the capital of France?'')) echo_options"

text \<open>A call whose question has two spaces between two of its words.\<close>

definition spaced_echo_options :: options where
  "spaced_echo_options =
     default_options\<lparr>question := js ''What is the  capital of France?''\<rparr>"

text \<open>
  An answer container with two links to the same address: a numbered citation link
  \<open><a href="https://example.com/">1.</a>\<close> and a link that shows the address itself.
\<close>

definition link :: "jsstring \<Rightarrow> jsstring \<Rightarrow> element" where
  "link href text =
     \<lparr>e_tagName = js ''A'', e_href = href,
      e_getAttribute = (\<lambda>name. if name = ''href'' then Some href else None),
      e_innerText = text, e_textContent = text\<rparr>"

definition numbered_link_container :: container_dom where
  "numbered_link_container =
     \<lparr>d_anchors = [link (js ''https://example.com/'') (js ''1.''),
                    link (js ''https://example.com/'') (js ''https://example.com/'')],
      d_markers = [], d_sourceLike = (\<lambda>selector. [])\<rparr>"

declare loop.simps [simp del] observations.simps [simp del]

section \<open>Facts about strings\<close>

lemma trim_Nil: "trim [] = []"
  by (simp add: trim_def trimStart_def trimEnd_def)

lemma trimEnd_prefix: "prefix (trimEnd s) s"
proof -
  have "rev s = takeWhile is_ws (rev s) @ dropWhile is_ws (rev s)" by simp
  then have "s = rev (dropWhile is_ws (rev s)) @ rev (takeWhile is_ws (rev s))"
    by (metis rev_append rev_rev_ident)
  then show ?thesis unfolding trimEnd_def by (metis prefixI)
qed

lemma trimEnd_idem: "trimEnd (trimEnd s) = trimEnd s"
  by (simp add: trimEnd_def)

lemma trimStart_trimEnd: "trimStart (trimEnd (trimStart s)) = trimEnd (trimStart s)"
proof (cases "trimEnd (trimStart s) = []")
  case True
  then show ?thesis by (simp add: trimStart_def)
next
  case False
  obtain zs where zs: "trimStart s = trimEnd (trimStart s) @ zs"
    using trimEnd_prefix [of "trimStart s"] by (auto simp: prefix_def)
  with False have ne: "trimStart s \<noteq> []" by auto
  from zs False have "hd (trimEnd (trimStart s)) = hd (trimStart s)"
    by (metis hd_append2)
  moreover from ne have "\<not> is_ws (hd (trimStart s))"
    unfolding trimStart_def by (rule hd_dropWhile)
  ultimately show ?thesis using False
    by (simp add: trimStart_def dropWhile_eq_self_iff)
qed

lemma trim_idem: "trim (trim s) = trim s"
  by (simp add: trim_def trimStart_trimEnd trimEnd_idem)

lemma trimStart_padding:
  assumes "list_all is_ws pre"
  shows "trimStart (pre @ s) = trimStart s"
  unfolding trimStart_def using assms by (intro dropWhile_append2) (simp add: list_all_iff)

lemma trimEnd_padding:
  assumes "list_all is_ws post"
  shows "trimEnd (s @ post) = trimEnd s"
proof -
  have "dropWhile is_ws (rev post @ rev s) = dropWhile is_ws (rev s)"
    using assms by (intro dropWhile_append2) (simp add: list_all_iff)
  then show ?thesis by (simp add: trimEnd_def)
qed

lemma trim_padding:
  assumes "list_all is_ws pre" and "list_all is_ws post"
  shows "trim (pre @ a @ post) = trim a"
proof (cases "list_all is_ws a")
  case True
  with assms(2) have "list_all is_ws (a @ post)" by simp
  then have "trimStart (a @ post) = []" unfolding trimStart_def
    by (simp add: list_all_iff)
  moreover from True have "trimStart a = []" unfolding trimStart_def
    by (simp add: list_all_iff)
  ultimately show ?thesis
    using assms(1) by (simp add: trim_def trimStart_padding)
next
  case False
  then obtain x where "x \<in> set a" "\<not> is_ws x" by (auto simp: list_all_iff)
  then have "trimStart (a @ post) = trimStart a @ post" unfolding trimStart_def
    by (rule dropWhile_append1)
  with assms show ?thesis
    by (simp add: trim_def trimStart_padding trimEnd_padding)
qed

lemma includes_sublist: "js_includes a b \<longleftrightarrow> sublist b a"
  by (induction a) (auto simp: sublist_Cons_right)

lemmas string_eval = js_def trim_def trimStart_def trimEnd_def is_ws_def normalizeText_def

lemmas hash_eval = fingerprint_def hashString_def hash_round_def to_int32_def

section \<open>The fingerprint and the text it is computed from\<close>

text \<open>
  Claim C4, as stated: two texts that are equal after whitespace normalisation (runs of white
  space collapsed to one space, ends trimmed) have the same fingerprint. The code hashes the
  trimmed text and leaves inner runs of white space as they are: \<open>"a  b"\<close> and \<open>"a b"\<close>
  normalise to the same text and have the fingerprints 2921569 and 94307.
\<close>

theorem fingerprint_not_of_normalized_text:
  "normalizeText (js ''a  b'') = normalizeText (js ''a b'') \<and>
   fingerprint (js ''a  b'') \<noteq> fingerprint (js ''a b'') \<and>
   fingerprint (js ''a  b'') = 2921569 \<and> fingerprint (js ''a b'') = 94307"
  by (simp add: string_eval hash_eval)

text \<open>
  Claim C4, amended: two texts that are equal after trimming the ends have the same
  fingerprint; the fingerprint is a function of the trimmed text. In particular, white space
  added at either end of a text does not change its fingerprint.
\<close>

theorem fingerprint_of_trimmed_text:
  "(trim a = trim b \<longrightarrow> fingerprint a = fingerprint b) \<and>
   (list_all is_ws pre \<and> list_all is_ws post \<longrightarrow> fingerprint (pre @ a @ post) = fingerprint a)"
  by (simp add: fingerprint_def trim_padding)

theorem fingerprint_of_trimmed_text_witness:
  "trim (js ''  hi '') = trim (js ''hi'') \<and> list_all is_ws (js ''  '') \<and> list_all is_ws (js '' '') \<and>
   fingerprint (js ''  hi '') = fingerprint (js ''hi'') \<and>
   fingerprint (js ''  '' @ js ''hi'' @ js '' '') = fingerprint (js ''hi'') \<and>
   fingerprint (js ''hi'') = 3329"
proof -
  have t: "trim (js ''  hi '') = trim (js ''hi'')"
    by (simp add: string_eval)
  have w: "list_all is_ws (js ''  '') \<and> list_all is_ws (js '' '')"
    by (simp add: string_eval)
  have "fingerprint (js ''hi'') = 3329"
    by (simp add: string_eval hash_eval)
  with t w fingerprint_of_trimmed_text [of "js ''  hi ''" "js ''hi''"]
    fingerprint_of_trimmed_text [of "js ''hi''" "js ''hi''" "js ''  ''" "js '' ''"]
  show ?thesis by simp
qed

section \<open>Recognising the same answer\<close>

text \<open>
  Claim C8: \<open>isLikelySameAnswer(a, b)\<close> is true exactly when, after whitespace normalisation
  of both, neither is empty and either they are equal, or both have at least 80 code units
  and one occurs in the other as a substring; when one of them is shorter than 80, only
  equality matches.
\<close>

theorem isLikelySameAnswer_iff:
  "(isLikelySameAnswer a b \<longleftrightarrow>
      normalizeText a \<noteq> [] \<and> normalizeText b \<noteq> [] \<and>
      (normalizeText a = normalizeText b \<or>
       80 \<le> length (normalizeText a) \<and> 80 \<le> length (normalizeText b) \<and>
       (sublist (normalizeText b) (normalizeText a) \<or> sublist (normalizeText a) (normalizeText b))))
   \<and> (length (normalizeText a) < 80 \<or> length (normalizeText b) < 80 \<longrightarrow>
      (isLikelySameAnswer a b \<longleftrightarrow> normalizeText a \<noteq> [] \<and> normalizeText a = normalizeText b))"
  by (auto simp: isLikelySameAnswer_def Let_def includes_sublist)

theorem isLikelySameAnswer_iff_witness:
  "length (normalizeText (js '' Paris  is '')) < 80 \<and>
   isLikelySameAnswer (js '' Paris  is '') (js ''Paris is'') \<and>
   \<not> isLikelySameAnswer (js ''Paris is'') (js ''Paris'')"
proof -
  have a: "normalizeText (js '' Paris  is '') = js ''Paris is''"
    by (simp add: string_eval)
  have b: "normalizeText (js ''Paris is'') = js ''Paris is''"
    by (simp add: string_eval)
  have c: "normalizeText (js ''Paris'') = js ''Paris''"
    by (simp add: string_eval)
  show ?thesis
    using isLikelySameAnswer_iff [of "js '' Paris  is ''" "js ''Paris is''"]
      isLikelySameAnswer_iff [of "js ''Paris is''" "js ''Paris''"]
    by (simp add: a b c) (simp add: js_def)
qed

section \<open>The early exit of the extractor\<close>

text \<open>
  Claim C6: when the primary query finds no more containers than the known set has
  fingerprints, the extractor returns no candidate at once. It reads no container and does
  not go on to the fallback selectors or the in-page scan: the result is the same whatever
  the containers hold and whatever those two paths would give, errors that abort the call
  when they are met included.
\<close>

theorem early_exit_without_reading:
  "length containers \<le> fcard known \<Longrightarrow>
   extractLatestText
     \<lparr>p_containers = Val containers, p_fallback = fallback, p_document = document\<rparr> known
   = NoCandidate"
  by (simp add: extractLatestText_def primary_path_def)

theorem early_exit_without_reading_witness:
  "length [Thrown True :: container] \<le> fcard {|7::int|} \<and>
   extractLatestText
     \<lparr>p_containers = Val [Thrown True], p_fallback = (\<lambda>selector. Thrown True),
      p_document = Thrown True\<rparr> {|7|} = NoCandidate \<and>
   extractLatestText
     \<lparr>p_containers = Val [Thrown True], p_fallback = (\<lambda>selector. Thrown True),
      p_document = Thrown True\<rparr> {||} = ExtractThrows"
proof -
  have h: "length [Thrown True :: container] \<le> fcard {|7::int|}"
    by (simp add: fcard_finsert_if)
  show ?thesis
    using h early_exit_without_reading [OF h, of "\<lambda>selector. Thrown True" "Thrown True"]
    by (simp add: extractLatestText_def primary_path_def fcard_fempty)
qed

section \<open>Counting response elements\<close>

lemma count_visible_eq: "count_visible els n = n + length (filter (\<lambda>el. el = Val True) els)"
  by (induction els arbitrary: n) (auto split: attempt.splits)

lemma count_selectors_eq:
  "count_selectors page selectors 0 =
     (case find (\<lambda>selector. 0 < visible_matches page selector) selectors of
        None \<Rightarrow> 0
      | Some selector \<Rightarrow> visible_matches page selector)"
  by (induction selectors)
    (auto simp: visible_matches_def count_visible_eq Let_def split: attempt.splits)

text \<open>
  Claim C10: \<open>countResponseElements\<close> returns the number of visible elements of the first
  selector of \<open>RESPONSE_SELECTORS\<close> that matches a visible element, and 0 when none does;
  what later selectors match is not counted.
\<close>

theorem countResponseElements_first_selector:
  "countResponseElements page =
     (case find (\<lambda>selector. 0 < visible_matches page selector) RESPONSE_SELECTORS of
        None \<Rightarrow> 0
      | Some selector \<Rightarrow> visible_matches page selector)"
  by (simp add: countResponseElements_def count_selectors_eq)

theorem countResponseElements_first_selector_witness:
  "countResponseElements later_selectors_page = 2 \<and>
   visible_matches later_selectors_page ''[data-message-author='assistant']'' = 3"
  using countResponseElements_first_selector [of later_selectors_page]
  by (simp add: RESPONSE_SELECTORS_def visible_matches_def later_selectors_page_def)


section \<open>The extractor returns trimmed, new text\<close>

lemma scan_containers_Candidate:
  "scan_containers known cs = Candidate t \<Longrightarrow> t \<noteq> [] \<and> trim t = t \<and> fingerprint t |\<notin>| known"
proof (induction cs)
  case Nil
  then show ?case by simp
next
  case (Cons c cs)
  then show ?case
    by (auto simp: trim_idem fingerprint_def split: attempt.splits option.splits if_splits)
qed

lemma scan_elements_Candidate:
  "scan_elements known es = Candidate t \<Longrightarrow> t \<noteq> [] \<and> trim t = t \<and> fingerprint t |\<notin>| known"
proof (induction es)
  case Nil
  then show ?case by simp
next
  case (Cons e es)
  then show ?case
    by (auto simp: trim_idem fingerprint_def split: attempt.splits if_splits)
qed

lemma fallback_path_Candidate:
  "fallback_path page known sels = Candidate t \<Longrightarrow> t \<noteq> [] \<and> trim t = t \<and> fingerprint t |\<notin>| known"
proof (induction sels)
  case Nil
  then show ?case by simp
next
  case (Cons sel sels)
  then show ?case
    by (auto dest: scan_elements_Candidate split: attempt.splits extracted.splits if_splits)
qed

lemma last_resort_path_Candidate:
  "last_resort_path page = Candidate t \<Longrightarrow> t \<noteq> [] \<and> trim t = t"
  by (auto simp: last_resort_path_def trim_idem split: attempt.splits option.splits if_splits)

lemma primary_path_None: "primary_path page known = None \<Longrightarrow> p_containers page = Thrown False"
  by (auto simp: primary_path_def split: attempt.splits if_splits)

lemma primary_path_Candidate:
  "primary_path page known = Some (Candidate t) \<Longrightarrow> t \<noteq> [] \<and> trim t = t \<and> fingerprint t |\<notin>| known"
  by (auto simp: primary_path_def dest: scan_containers_Candidate split: attempt.splits if_splits)

lemma extractLatestText_Candidate:
  assumes "extractLatestText page known = Candidate t"
  shows "t \<noteq> [] \<and> trim t = t \<and>
         (fingerprint t |\<notin>| known \<or>
          p_containers page = Thrown False \<and> last_resort_path page = Candidate t)"
proof (cases "primary_path page known")
  case None
  then have thrown: "p_containers page = Thrown False" by (rule primary_path_None)
  show ?thesis
  proof (cases "fallback_path page known RESPONSE_SELECTORS")
    case (Candidate u)
    with assms None have "u = t" by (simp add: extractLatestText_def)
    with Candidate show ?thesis using fallback_path_Candidate by blast
  next
    case NoCandidate
    with assms None have "last_resort_path page = Candidate t" by (simp add: extractLatestText_def)
    with thrown show ?thesis using last_resort_path_Candidate by blast
  next
    case ExtractThrows
    with assms None show ?thesis by (simp add: extractLatestText_def)
  qed
next
  case (Some r)
  with assms have "primary_path page known = Some (Candidate t)" by (simp add: extractLatestText_def)
  then show ?thesis using primary_path_Candidate by blast
qed

section \<open>One iteration\<close>

lemma end_of_iteration_Continue:
  "end_of_iteration c ob s = Continue s' \<Longrightarrow>
     stableCount s' = stableCount s \<and> lastCandidate s' = lastCandidate s \<and> knownHashes s' = knownHashes s"
  by (auto simp: end_of_iteration_def split: sum.splits if_splits)

lemma end_of_iteration_Stop:
  "end_of_iteration c ob s = Stop out \<Longrightarrow> \<exists>e. out = Throws e \<and> e \<noteq> PollGuardExceeded"
  by (auto simp: end_of_iteration_def waitForPollInterval_def split: sum.splits if_splits wait_obs.splits)

lemma thinking_check_Continue:
  "thinking_check c ob s = Some (Continue s') \<Longrightarrow>
     stableCount s' = stableCount s \<and> lastCandidate s' = lastCandidate s \<and> knownHashes s' = knownHashes s"
  by (auto simp: thinking_check_def split: attempt.splits option.splits sum.splits if_splits)

lemma thinking_check_Stop:
  "thinking_check c ob s = Some (Stop out) \<Longrightarrow> out = Throws RecoverableBrowserError"
  by (auto simp: thinking_check_def split: attempt.splits option.splits sum.splits if_splits)

lemma compared_Some:
  "compared c ob n s = Some x \<longleftrightarrow>
     \<not> (n mod 10 = 0 \<and> \<not> o_responsive ob) \<and> thinking_check c ob s = None \<and>
     (\<exists>candidate. extractLatestText (o_page ob) (knownHashes s) = Candidate candidate \<and>
        trim candidate = x \<and> x \<noteq> [] \<and> toLowerCase c x \<noteq> sanitizedQuestion c)"
  by (auto simp: compared_def split: option.splits extracted.splits)

lemma iteration_Answer:
  "iteration c ob n s = Stop (Answer t) \<longleftrightarrow>
     compared c ob n s = Some t \<and> 3 \<le> stableCount (track_stability s t)"
proof
  assume "iteration c ob n s = Stop (Answer t)"
  then show "compared c ob n s = Some t \<and> 3 \<le> stableCount (track_stability s t)"
    by (auto simp: iteration_def compared_def handle_candidate_def Let_def
        dest: thinking_check_Stop end_of_iteration_Stop
        split: option.splits extracted.splits if_splits sum.splits)
next
  assume a: "compared c ob n s = Some t \<and> 3 \<le> stableCount (track_stability s t)"
  then obtain candidate where
    "\<not> (n mod 10 = 0 \<and> \<not> o_responsive ob)" "thinking_check c ob s = None"
    "extractLatestText (o_page ob) (knownHashes s) = Candidate candidate"
    "trim candidate = t" "t \<noteq> []" "toLowerCase c t \<noteq> sanitizedQuestion c"
    unfolding compared_Some by blast
  moreover from this have "candidate \<noteq> []" using trim_Nil by auto
  ultimately show "iteration c ob n s = Stop (Answer t)"
    using a by (simp add: iteration_def handle_candidate_def Let_def)
qed

lemma iteration_Continue_compared:
  assumes "iteration c ob n s = Continue s'"
  shows "case compared c ob n s of
           None \<Rightarrow> stableCount s' = stableCount s \<and> lastCandidate s' = lastCandidate s
         | Some x \<Rightarrow> stableCount s' = stableCount (track_stability s x) \<and>
                      lastCandidate s' = lastCandidate (track_stability s x) \<and>
                      stableCount (track_stability s x) < 3"
  using assms
  by (auto simp: iteration_def compared_def handle_candidate_def Let_def trim_Nil
      dest: thinking_check_Continue end_of_iteration_Continue
      split: option.splits extracted.splits if_splits sum.splits)

lemma track_stability_known: "knownHashes (track_stability s x) = knownHashes s"
  by (simp add: track_stability_def)

lemma handle_candidate_known_mono:
  assumes "handle_candidate c ob s r = Continue s'"
  shows "knownHashes s |\<subseteq>| knownHashes s'"
proof (cases r)
  case (Candidate candidate)
  show ?thesis
  proof (cases "candidate \<noteq> [] \<and> trim candidate \<noteq> []")
    case False
    with assms Candidate have "end_of_iteration c ob s = Continue s'"
      by (auto simp: handle_candidate_def Let_def split: if_splits)
    then show ?thesis by (simp add: end_of_iteration_Continue)
  next
    case ne: True
    show ?thesis
    proof (cases "toLowerCase c (trim candidate) = sanitizedQuestion c")
      case True
      with assms Candidate ne show ?thesis
        by (auto simp: handle_candidate_def Let_def split: sum.splits)
    next
      case False
      with assms Candidate ne
      have "end_of_iteration c ob (track_stability s (trim candidate)) = Continue s'"
        by (auto simp: handle_candidate_def Let_def split: if_splits)
      then show ?thesis by (simp add: end_of_iteration_Continue track_stability_known)
    qed
  qed
next
  case NoCandidate
  with assms have "end_of_iteration c ob s = Continue s'" by (simp add: handle_candidate_def)
  then show ?thesis by (simp add: end_of_iteration_Continue)
next
  case ExtractThrows
  with assms show ?thesis by (simp add: handle_candidate_def)
qed

lemma iteration_known_mono:
  assumes "iteration c ob n s = Continue s'"
  shows "knownHashes s |\<subseteq>| knownHashes s'"
proof (cases "thinking_check c ob s")
  case None
  with assms have "handle_candidate c ob s (extractLatestText (o_page ob) (knownHashes s)) = Continue s'"
    by (simp add: iteration_def split: if_splits)
  then show ?thesis by (rule handle_candidate_known_mono)
next
  case (Some st)
  with assms have "thinking_check c ob s = Some (Continue s')"
    by (simp add: iteration_def split: if_splits)
  then show ?thesis by (simp add: thinking_check_Continue)
qed

lemma iteration_Stop:
  "iteration c ob n s = Stop out \<Longrightarrow> out \<noteq> NoAnswer \<and> out \<noteq> Throws PollGuardExceeded"
  by (auto simp: iteration_def handle_candidate_def Let_def waitForPollInterval_def
      dest: thinking_check_Stop end_of_iteration_Stop
      split: option.splits extracted.splits if_splits sum.splits wait_obs.splits)

section \<open>The loop\<close>



lemma loop_unfold_Inl:
  assumes "loop w c n s = Inl out"
  shows "now_loop w n < deadline c \<and> int n < maxPolls c \<and>
         (iteration c (polls w (Suc n)) (Suc n) s = Stop out \<or>
          (\<exists>s'. iteration c (polls w (Suc n)) (Suc n) s = Continue s' \<and>
                loop w c (Suc n) s' = Inl out))"
  using assms by (subst (asm) loop.simps) (auto split: if_splits step.splits)

lemma loop_unfold_Inr:
  assumes "loop w c n s = Inr m"
  shows "(\<not> (now_loop w n < deadline c \<and> int n < maxPolls c) \<and> m = n) \<or>
         (now_loop w n < deadline c \<and> int n < maxPolls c \<and>
          (\<exists>s'. iteration c (polls w (Suc n)) (Suc n) s = Continue s' \<and>
                loop w c (Suc n) s' = Inr m))"
  using assms by (subst (asm) loop.simps) (auto split: if_splits step.splits)

lemma loop_Answer_trimmed: "loop w c n s = Inl (Answer t) \<Longrightarrow> t \<noteq> [] \<and> trim t = t"
proof (induction w c n s rule: loop.induct)
  case (1 w c pollCount s)
  from loop_unfold_Inl [OF "1.prems"]
  have test: "now_loop w pollCount < deadline c \<and> int pollCount < maxPolls c"
    and step: "iteration c (polls w (Suc pollCount)) (Suc pollCount) s = Stop (Answer t) \<or>
          (\<exists>s'. iteration c (polls w (Suc pollCount)) (Suc pollCount) s = Continue s' \<and>
                loop w c (Suc pollCount) s' = Inl (Answer t))"
    by auto
  from step show ?case
  proof
    assume "iteration c (polls w (Suc pollCount)) (Suc pollCount) s = Stop (Answer t)"
    then have "compared c (polls w (Suc pollCount)) (Suc pollCount) s = Some t"
      by (simp add: iteration_Answer)
    then obtain candidate where
      ex: "extractLatestText (o_page (polls w (Suc pollCount))) (knownHashes s) = Candidate candidate"
      and t: "trim candidate = t" "t \<noteq> []"
      unfolding compared_Some by blast
    from extractLatestText_Candidate [OF ex] t show ?thesis by auto
  next
    assume "\<exists>s'. iteration c (polls w (Suc pollCount)) (Suc pollCount) s = Continue s' \<and>
                loop w c (Suc pollCount) s' = Inl (Answer t)"
    then show ?thesis using "1.IH" test by blast
  qed
qed

lemma loop_Answer_novel:
  "loop w c n s = Inl (Answer t) \<Longrightarrow>
     (fingerprint t |\<notin>| knownHashes s \<or>
      (\<exists>k. n < k \<and> int k \<le> maxPolls c \<and> p_containers (o_page (polls w k)) = Thrown False \<and>
           last_resort_path (o_page (polls w k)) = Candidate t)) \<and>
     toLowerCase c t \<noteq> sanitizedQuestion c"
proof (induction w c n s rule: loop.induct)
  case (1 w c pollCount s)
  from loop_unfold_Inl [OF "1.prems"]
  have test: "now_loop w pollCount < deadline c \<and> int pollCount < maxPolls c"
    and step: "iteration c (polls w (Suc pollCount)) (Suc pollCount) s = Stop (Answer t) \<or>
          (\<exists>s'. iteration c (polls w (Suc pollCount)) (Suc pollCount) s = Continue s' \<and>
                loop w c (Suc pollCount) s' = Inl (Answer t))"
    by auto
  from step show ?case
  proof
    assume "iteration c (polls w (Suc pollCount)) (Suc pollCount) s = Stop (Answer t)"
    then have "compared c (polls w (Suc pollCount)) (Suc pollCount) s = Some t"
      by (simp add: iteration_Answer)
    then obtain candidate where
      ex: "extractLatestText (o_page (polls w (Suc pollCount))) (knownHashes s) = Candidate candidate"
      and t: "trim candidate = t" and echo: "toLowerCase c t \<noteq> sanitizedQuestion c"
      unfolding compared_Some by blast
    from extractLatestText_Candidate [OF ex] t
    have "fingerprint t |\<notin>| knownHashes s \<or>
          p_containers (o_page (polls w (Suc pollCount))) = Thrown False \<and>
          last_resort_path (o_page (polls w (Suc pollCount))) = Candidate t"
      by auto
    moreover from test have "int (Suc pollCount) \<le> maxPolls c" by simp
    ultimately show ?thesis using echo by blast
  next
    assume "\<exists>s'. iteration c (polls w (Suc pollCount)) (Suc pollCount) s = Continue s' \<and>
                loop w c (Suc pollCount) s' = Inl (Answer t)"
    then obtain s' where
      it: "iteration c (polls w (Suc pollCount)) (Suc pollCount) s = Continue s'"
      and rest: "loop w c (Suc pollCount) s' = Inl (Answer t)"
      by blast
    from "1.IH" [OF test it rest]
    have ih: "(fingerprint t |\<notin>| knownHashes s' \<or>
      (\<exists>k. Suc pollCount < k \<and> int k \<le> maxPolls c \<and>
           p_containers (o_page (polls w k)) = Thrown False \<and>
           last_resort_path (o_page (polls w k)) = Candidate t))"
      and echo: "toLowerCase c t \<noteq> sanitizedQuestion c"
      by auto
    from iteration_known_mono [OF it] have "knownHashes s |\<subseteq>| knownHashes s'" .
    with ih have "fingerprint t |\<notin>| knownHashes s \<or>
      (\<exists>k. pollCount < k \<and> int k \<le> maxPolls c \<and>
           p_containers (o_page (polls w k)) = Thrown False \<and>
           last_resort_path (o_page (polls w k)) = Candidate t)"
      by (meson Suc_lessD fsubsetD)
    with echo show ?thesis by blast
  qed
qed

lemma loop_Inl_kind:
  "loop w c n s = Inl out \<Longrightarrow> out \<noteq> NoAnswer \<and> out \<noteq> Throws PollGuardExceeded"
proof (induction w c n s rule: loop.induct)
  case (1 w c pollCount s)
  from loop_unfold_Inl [OF "1.prems"]
  have test: "now_loop w pollCount < deadline c \<and> int pollCount < maxPolls c"
    and step: "iteration c (polls w (Suc pollCount)) (Suc pollCount) s = Stop out \<or>
          (\<exists>s'. iteration c (polls w (Suc pollCount)) (Suc pollCount) s = Continue s' \<and>
                loop w c (Suc pollCount) s' = Inl out)"
    by auto
  from step show ?case
  proof
    assume "iteration c (polls w (Suc pollCount)) (Suc pollCount) s = Stop out"
    then show ?thesis by (rule iteration_Stop)
  next
    assume "\<exists>s'. iteration c (polls w (Suc pollCount)) (Suc pollCount) s = Continue s' \<and>
                loop w c (Suc pollCount) s' = Inl out"
    then show ?thesis using "1.IH" test by blast
  qed
qed

lemma loop_Inr_exit:
  "loop w c n s = Inr m \<Longrightarrow>
     n \<le> m \<and> \<not> (now_loop w m < deadline c \<and> int m < maxPolls c) \<and>
     (int n \<le> maxPolls c \<longrightarrow> int m \<le> maxPolls c)"
proof (induction w c n s rule: loop.induct)
  case (1 w c pollCount s)
  from loop_unfold_Inr [OF "1.prems"] show ?case
  proof
    assume "\<not> (now_loop w pollCount < deadline c \<and> int pollCount < maxPolls c) \<and> m = pollCount"
    then show ?thesis by simp
  next
    assume a: "now_loop w pollCount < deadline c \<and> int pollCount < maxPolls c \<and>
          (\<exists>s'. iteration c (polls w (Suc pollCount)) (Suc pollCount) s = Continue s' \<and>
                loop w c (Suc pollCount) s' = Inr m)"
    then obtain s' where
      it: "iteration c (polls w (Suc pollCount)) (Suc pollCount) s = Continue s'"
      and rest: "loop w c (Suc pollCount) s' = Inr m"
      by blast
    from a have test: "now_loop w pollCount < deadline c \<and> int pollCount < maxPolls c" by simp
    from "1.IH" [OF test it rest] test show ?thesis by auto
  qed
qed

lemma observations_unfold:
  "now_loop w n < deadline c \<and> int n < maxPolls c \<Longrightarrow>
   observations w c n s =
     compared c (polls w (Suc n)) (Suc n) s #
     (case iteration c (polls w (Suc n)) (Suc n) s of
        Continue s' \<Rightarrow> observations w c (Suc n) s'
      | Stop out \<Rightarrow> [])"
  by (subst observations.simps) simp

lemma track_stability_cases:
  "(Some x \<noteq> lastCandidate s \<longrightarrow>
      stableCount (track_stability s x) = 1 \<and> lastCandidate (track_stability s x) = Some x) \<and>
   (Some x = lastCandidate s \<longrightarrow>
      stableCount (track_stability s x) = stableCount s + 1 \<and>
      lastCandidate (track_stability s x) = Some x)"
  by (simp add: track_stability_def)

lemma loop_Answer_history:
  assumes "loop w c n s = Inl (Answer t)"
    and "stableCount s < 3"
    and "case lastCandidate s of
           None \<Rightarrow> stableCount s = 0
         | Some l \<Rightarrow> \<exists>pre. h = pre @ replicate (stableCount s) (Some l)"
  shows "(\<exists>pre. h @ filter (\<lambda>x. x \<noteq> None) (observations w c n s) = pre @ [Some t, Some t, Some t]) \<and>
         observations w c n s \<noteq> [] \<and> last (observations w c n s) = Some t"
  using assms
proof (induction w c n s arbitrary: h rule: loop.induct)
  case (1 w c pollCount s)
  let ?ob = "polls w (Suc pollCount)"
  let ?cmp = "compared c ?ob (Suc pollCount) s"
  from loop_unfold_Inl [OF "1.prems"(1)]
  have test: "now_loop w pollCount < deadline c \<and> int pollCount < maxPolls c"
    and step: "iteration c ?ob (Suc pollCount) s = Stop (Answer t) \<or>
          (\<exists>s'. iteration c ?ob (Suc pollCount) s = Continue s' \<and>
                loop w c (Suc pollCount) s' = Inl (Answer t))"
    by auto
  note obs = observations_unfold [OF test, of s]
  from step show ?case
  proof
    assume stop: "iteration c ?ob (Suc pollCount) s = Stop (Answer t)"
    then have cmp: "?cmp = Some t" and three: "3 \<le> stableCount (track_stability s t)"
      by (simp_all add: iteration_Answer)
    from three "1.prems"(2) have last: "lastCandidate s = Some t" and two: "stableCount s = 2"
      using track_stability_cases [of t s] by (cases "Some t = lastCandidate s"; simp)+
    with "1.prems"(3) obtain pre where "h = pre @ replicate 2 (Some t)" by auto
    then have "h @ [Some t] = pre @ [Some t, Some t, Some t]"
      by (simp add: numeral_2_eq_2)
    with obs stop cmp show ?thesis by auto
  next
    assume "\<exists>s'. iteration c ?ob (Suc pollCount) s = Continue s' \<and>
                loop w c (Suc pollCount) s' = Inl (Answer t)"
    then obtain s' where
      it: "iteration c ?ob (Suc pollCount) s = Continue s'"
      and rest: "loop w c (Suc pollCount) s' = Inl (Answer t)"
      by blast
    let ?h' = "h @ filter (\<lambda>x. x \<noteq> None) [?cmp]"
    have inv: "stableCount s' < 3 \<and>
      (case lastCandidate s' of
         None \<Rightarrow> stableCount s' = 0
       | Some l \<Rightarrow> \<exists>pre. ?h' = pre @ replicate (stableCount s') (Some l))"
    proof (cases ?cmp)
      case None
      with iteration_Continue_compared [OF it]
      have "stableCount s' = stableCount s" "lastCandidate s' = lastCandidate s" by simp_all
      with None "1.prems"(2,3) show ?thesis by (auto split: option.splits)
    next
      case (Some x)
      with iteration_Continue_compared [OF it]
      have cnt: "stableCount s' = stableCount (track_stability s x)"
        and lst: "lastCandidate s' = lastCandidate (track_stability s x)"
        and lt: "stableCount (track_stability s x) < 3"
        by simp_all
      have h': "?h' = h @ [Some x]" using Some by simp
      show ?thesis
      proof (cases "Some x = lastCandidate s")
        case True
        then have l: "lastCandidate s = Some x" by simp
        with "1.prems"(3) obtain pre where "h = pre @ replicate (stableCount s) (Some x)"
          by auto
        then have hx: "h @ [Some x] = pre @ replicate (Suc (stableCount s)) (Some x)"
          by (simp add: replicate_append_same)
        from True track_stability_cases [of x s]
        have "stableCount (track_stability s x) = Suc (stableCount s)"
          and "lastCandidate (track_stability s x) = Some x"
          by simp_all
        with cnt lst lt have "stableCount s' < 3" "stableCount s' = Suc (stableCount s)"
          "lastCandidate s' = Some x"
          by simp_all
        with hx show ?thesis unfolding h' by auto
      next
        case False
        with track_stability_cases [of x s]
        have "stableCount (track_stability s x) = 1"
          and "lastCandidate (track_stability s x) = Some x"
          by simp_all
        with cnt lst have "stableCount s' = 1" "lastCandidate s' = Some x"
          by simp_all
        then show ?thesis unfolding h' by simp
      qed
    qed
    from "1.IH" [OF test it rest, of ?h'] inv
    have "(\<exists>pre. ?h' @ filter (\<lambda>x. x \<noteq> None) (observations w c (Suc pollCount) s') =
              pre @ [Some t, Some t, Some t]) \<and>
          observations w c (Suc pollCount) s' \<noteq> [] \<and>
          last (observations w c (Suc pollCount) s') = Some t"
      by simp
    with obs it show ?thesis by auto
  qed
qed

lemma waitForLatestAnswer_Answer:
  "waitForLatestAnswer lc w opts = Answer t \<longleftrightarrow>
   loop w (config_of lc w opts) 0 (initial_state opts) = Inl (Answer t)"
  by (cases "loop w (config_of lc w opts) 0 (initial_state opts)")
    (auto simp: waitForLatestAnswer_def after_loop_def Let_def)

section \<open>Stability\<close>

text \<open>
  Claim C1, as stated: a text is returned only after it was the candidate on 3 consecutive
  polls, and a candidate that differs from the one of the previous poll resets the counter.
  In the run below the candidate is \<open>Paris\<close> at the polls 1, 3 and 5, the echo of the question
  at poll 2 and none at poll 4, where the answer cannot be read. Neither of these two polls
  touches the counter, and \<open>Paris\<close> is returned at poll 5 without having been the candidate
  on two consecutive polls.
\<close>

theorem stable_without_consecutive_polls:
  "waitForLatestAnswer asciiLower interrupted_world echo_options = Answer (js ''Paris'') \<and>
   observations interrupted_world (config_of asciiLower interrupted_world echo_options) 0
     (initial_state echo_options) =
   [Some (js ''Paris''), None, Some (js ''Paris''), None, Some (js ''Paris'')] \<and>
   extractLatestText (o_page (polls interrupted_world 2)) {||} =
     Candidate (js ''What is the capital of France?'') \<and>
   extractLatestText (o_page (polls interrupted_world 4))
     {|fingerprint (js ''What is the capital of France?'')|} = NoCandidate"
  by code_simp

text \<open>
  Claim C1, amended: a text is returned only after it reached the stability comparison on
  three polls with no other text reaching it in between, the third being the returning poll:
  the compared candidates of the run end with that text three times. Polls that compare
  nothing (thinking indicator, no candidate, question echo) change neither the counter nor
  the last candidate and may lie between the three. A compared candidate that differs from
  the last candidate sets the counter to 1 and is recorded, an equal one adds 1, and an
  iteration returns the candidate exactly when the counter reaches 3.
\<close>

theorem stability_after_three_compared:
  "(waitForLatestAnswer lc w opts = Answer t \<longrightarrow>
      (\<exists>pre. filter (\<lambda>x. x \<noteq> None)
               (observations w (config_of lc w opts) 0 (initial_state opts)) =
             pre @ [Some t, Some t, Some t]) \<and>
      last (observations w (config_of lc w opts) 0 (initial_state opts)) = Some t) \<and>
   (iteration c ob n s = Stop (Answer t) \<longleftrightarrow>
      compared c ob n s = Some t \<and> 3 \<le> stableCount (track_stability s t)) \<and>
   (\<forall>s' x. iteration c ob n s = Continue s' \<and> compared c ob n s = Some x \<longrightarrow>
      stableCount s' = stableCount (track_stability s x) \<and>
      lastCandidate s' = lastCandidate (track_stability s x)) \<and>
   (\<forall>s'. iteration c ob n s = Continue s' \<and> compared c ob n s = None \<longrightarrow>
      stableCount s' = stableCount s \<and> lastCandidate s' = lastCandidate s) \<and>
   (Some x \<noteq> lastCandidate s \<longrightarrow>
      stableCount (track_stability s x) = 1 \<and> lastCandidate (track_stability s x) = Some x) \<and>
   (Some x = lastCandidate s \<longrightarrow>
      stableCount (track_stability s x) = stableCount s + 1 \<and>
      lastCandidate (track_stability s x) = Some x)"
proof -
  have run: "waitForLatestAnswer lc w opts = Answer t \<longrightarrow>
      (\<exists>pre. filter (\<lambda>x. x \<noteq> None)
               (observations w (config_of lc w opts) 0 (initial_state opts)) =
             pre @ [Some t, Some t, Some t]) \<and>
      last (observations w (config_of lc w opts) 0 (initial_state opts)) = Some t"
  proof
    assume "waitForLatestAnswer lc w opts = Answer t"
    then have "loop w (config_of lc w opts) 0 (initial_state opts) = Inl (Answer t)"
      by (simp add: waitForLatestAnswer_Answer)
    from loop_Answer_history [OF this, of "[]"]
    show "(\<exists>pre. filter (\<lambda>x. x \<noteq> None)
               (observations w (config_of lc w opts) 0 (initial_state opts)) =
             pre @ [Some t, Some t, Some t]) \<and>
      last (observations w (config_of lc w opts) 0 (initial_state opts)) = Some t"
      by (simp add: initial_state_def)
  qed
  have cont: "\<forall>s' x. iteration c ob n s = Continue s' \<and> compared c ob n s = Some x \<longrightarrow>
      stableCount s' = stableCount (track_stability s x) \<and>
      lastCandidate s' = lastCandidate (track_stability s x)"
    using iteration_Continue_compared [of c ob n s] by fastforce
  have skip: "\<forall>s'. iteration c ob n s = Continue s' \<and> compared c ob n s = None \<longrightarrow>
      stableCount s' = stableCount s \<and> lastCandidate s' = lastCandidate s"
    using iteration_Continue_compared [of c ob n s] by fastforce
  from run iteration_Answer [of c ob n s t] cont skip track_stability_cases [of x s]
  show ?thesis by blast
qed

theorem stability_after_three_compared_witness:
  "waitForLatestAnswer asciiLower streaming_world default_options = Answer (js ''Paris is the capital.'') \<and>
   (\<exists>pre. filter (\<lambda>x. x \<noteq> None)
       (observations streaming_world (config_of asciiLower streaming_world default_options) 0
         (initial_state default_options)) =
     pre @ [Some (js ''Paris is the capital.''), Some (js ''Paris is the capital.''),
            Some (js ''Paris is the capital.'')]) \<and>
   length (observations streaming_world (config_of asciiLower streaming_world default_options) 0
         (initial_state default_options)) = 5"
proof -
  have run: "waitForLatestAnswer asciiLower streaming_world default_options =
      Answer (js ''Paris is the capital.'')"
    by code_simp
  have len: "length (observations streaming_world (config_of asciiLower streaming_world default_options) 0
         (initial_state default_options)) = 5"
    by code_simp
  from run len stability_after_three_compared [of asciiLower streaming_world default_options "js ''Paris is the capital.''"]
  show ?thesis by blast
qed

section \<open>Novelty\<close>

text \<open>
  Claim C2: a candidate whose fingerprint is in the known set is never returned as the
  answer. The primary and the fallback path test the known set; the in-page scan of the last
  resort does not. In the run below every \<open>page.$$\<close> throws an error that is not
  recoverable, the scan finds the text \<open>Old answer\<close>, which the caller seeded as known, and
  the call returns it after three polls.
\<close>

theorem known_text_returned_by_last_resort:
  "waitForLatestAnswer asciiLower last_resort_world
     (default_options\<lparr>ignoreTexts := [js ''Old answer'']\<rparr>) = Answer (js ''Old answer'') \<and>
   fingerprint (js ''Old answer'') |\<in>| seed_known [js ''Old answer'']"
  by code_simp

text \<open>
  The other paths keep the law: a returned text is never the question echo, and its
  fingerprint is in no known set of the run up to the returning poll (the seeded set
  included), unless the text came from the in-page scan of the last resort at a poll whose
  primary query threw an error that is not recoverable. The first part is for the loop from
  any state, the second for the whole call.
\<close>

lemma answer_is_new_or_last_resort:
  "(loop w c n s = Inl (Answer t) \<longrightarrow>
      (fingerprint t |\<notin>| knownHashes s \<or>
       (\<exists>k. n < k \<and> int k \<le> maxPolls c \<and> p_containers (o_page (polls w k)) = Thrown False \<and>
            last_resort_path (o_page (polls w k)) = Candidate t)) \<and>
      toLowerCase c t \<noteq> sanitizedQuestion c) \<and>
   (waitForLatestAnswer lc w opts = Answer t \<longrightarrow>
      (fingerprint t |\<notin>| seed_known (ignoreTexts opts) \<or>
       (\<exists>k. 0 < k \<and> int k \<le> maxPolls (config_of lc w opts) \<and>
            p_containers (o_page (polls w k)) = Thrown False \<and>
            last_resort_path (o_page (polls w k)) = Candidate t)) \<and>
      lc t \<noteq> lc (trim (question opts)))"
proof -
  have "waitForLatestAnswer lc w opts = Answer t \<longrightarrow>
      (fingerprint t |\<notin>| seed_known (ignoreTexts opts) \<or>
       (\<exists>k. 0 < k \<and> int k \<le> maxPolls (config_of lc w opts) \<and>
            p_containers (o_page (polls w k)) = Thrown False \<and>
            last_resort_path (o_page (polls w k)) = Candidate t)) \<and>
      lc t \<noteq> lc (trim (question opts))"
  proof
    assume "waitForLatestAnswer lc w opts = Answer t"
    then have "loop w (config_of lc w opts) 0 (initial_state opts) = Inl (Answer t)"
      by (simp add: waitForLatestAnswer_Answer)
    from loop_Answer_novel [OF this]
    show "(fingerprint t |\<notin>| seed_known (ignoreTexts opts) \<or>
       (\<exists>k. 0 < k \<and> int k \<le> maxPolls (config_of lc w opts) \<and>
            p_containers (o_page (polls w k)) = Thrown False \<and>
            last_resort_path (o_page (polls w k)) = Candidate t)) \<and>
      lc t \<noteq> lc (trim (question opts))"
      by (simp add: initial_state_def config_of_def Let_def)
  qed
  with loop_Answer_novel [of w c n s t] show ?thesis by blast
qed

lemma answer_is_new_or_last_resort_example:
  "waitForLatestAnswer asciiLower two_answers_world
     (default_options\<lparr>ignoreTexts := [js ''Old answer'']\<rparr>) = Answer (js ''Paris'') \<and>
   fingerprint (js ''Paris'') |\<notin>|
     seed_known (ignoreTexts (default_options\<lparr>ignoreTexts := [js ''Old answer'']\<rparr>))"
proof -
  have run: "waitForLatestAnswer asciiLower two_answers_world
     (default_options\<lparr>ignoreTexts := [js ''Old answer'']\<rparr>) = Answer (js ''Paris'')"
    by code_simp
  have "\<forall>k. p_containers (o_page (polls two_answers_world k)) \<noteq> Thrown False"
    by (simp add: two_answers_world_def quiet_poll_def)
  with run answer_is_new_or_last_resort [of two_answers_world _ _ _ "js ''Paris''" asciiLower
      "default_options\<lparr>ignoreTexts := [js ''Old answer'']\<rparr>"]
  show ?thesis by blast
qed

section \<open>The poll guard and the deadline\<close>

text \<open>
  Claim C3: the call throws the guard error exactly when the loop ends with \<open>pollCount\<close> at
  \<open>maxPolls\<close> and the clock read after the loop is before the deadline; it returns
  \<open>null\<close> exactly when the loop ends otherwise, that is when the deadline has passed at the loop
  test or at the test after the loop. The loop never ends beyond \<open>maxPolls\<close>, and when it ends
  below, the loop test saw the deadline reached.
\<close>

theorem guard_exceeded_or_timeout:
  "(waitForLatestAnswer lc w opts = Throws PollGuardExceeded \<longleftrightarrow>
      (\<exists>n. loop w (config_of lc w opts) 0 (initial_state opts) = Inr n \<and>
           maxPolls (config_of lc w opts) \<le> int n \<and> now_exit w < deadline (config_of lc w opts))) \<and>
   (waitForLatestAnswer lc w opts = NoAnswer \<longleftrightarrow>
      (\<exists>n. loop w (config_of lc w opts) 0 (initial_state opts) = Inr n \<and>
           (int n < maxPolls (config_of lc w opts) \<or> deadline (config_of lc w opts) \<le> now_exit w))) \<and>
   (\<forall>n. loop w (config_of lc w opts) 0 (initial_state opts) = Inr n \<longrightarrow>
      int n \<le> maxPolls (config_of lc w opts) \<and>
      (int n < maxPolls (config_of lc w opts) \<longrightarrow> deadline (config_of lc w opts) \<le> now_loop w n))"
proof -
  let ?c = "config_of lc w opts"
  let ?l = "loop w ?c 0 (initial_state opts)"
  have pos: "0 \<le> maxPolls ?c" by (simp add: config_of_def Let_def)
  have exit: "\<forall>n. ?l = Inr n \<longrightarrow>
      int n \<le> maxPolls ?c \<and> (int n < maxPolls ?c \<longrightarrow> deadline ?c \<le> now_loop w n)"
    using loop_Inr_exit [of w ?c 0 "initial_state opts"] pos by fastforce
  show ?thesis
  proof (cases ?l)
    case (Inl out)
    with loop_Inl_kind [OF Inl] exit show ?thesis
      by (simp add: waitForLatestAnswer_def Let_def)
  next
    case (Inr m)
    with exit show ?thesis
      by (auto simp: waitForLatestAnswer_def after_loop_def Let_def)
  qed
qed

theorem guard_exceeded_or_timeout_witness:
  "waitForLatestAnswer asciiLower stuck_clock_world (default_options\<lparr>timeoutMs := 2000\<rparr>) =
     Throws PollGuardExceeded \<and>
   waitForLatestAnswer asciiLower timeout_world (default_options\<lparr>timeoutMs := 2000\<rparr>) = NoAnswer"
proof -
  let ?o = "default_options\<lparr>timeoutMs := 2000\<rparr>"
  have "loop stuck_clock_world (config_of asciiLower stuck_clock_world ?o) 0 (initial_state ?o) = Inr 120"
    by code_simp
  moreover have "maxPolls (config_of asciiLower stuck_clock_world ?o) = 120"
    "deadline (config_of asciiLower stuck_clock_world ?o) = 2000" "now_exit stuck_clock_world = 0"
    by code_simp+
  ultimately have a: "waitForLatestAnswer asciiLower stuck_clock_world ?o = Throws PollGuardExceeded"
    using guard_exceeded_or_timeout [of asciiLower stuck_clock_world ?o] by auto
  have "loop timeout_world (config_of asciiLower timeout_world ?o) 0 (initial_state ?o) = Inr 2"
    by code_simp
  moreover have "maxPolls (config_of asciiLower timeout_world ?o) = 120"
    by code_simp
  ultimately have "waitForLatestAnswer asciiLower timeout_world ?o = NoAnswer"
    using guard_exceeded_or_timeout [of asciiLower timeout_world ?o] by auto
  with a show ?thesis by simp
qed

section \<open>The question echo\<close>

text \<open>
  Claim C5, as stated: a candidate that equals the submitted question after normalization
  (runs of white space collapsed, ends trimmed) and case folding is fingerprinted and skipped,
  and never counts toward stability. The echo test trims and lower-cases both sides and
  collapses nothing: for a question typed with two spaces, which the page shows with one,
  the candidate equals the question after normalization and case folding, yet it is compared
  at each of the first three polls and returned as the answer.
\<close>

theorem echo_with_collapsed_space_is_returned:
  "asciiLower (normalizeText (js ''What is the capital of France?'')) =
     asciiLower (normalizeText (question spaced_echo_options)) \<and>
   waitForLatestAnswer asciiLower (steady_world (js ''What is the capital of France?''))
     spaced_echo_options = Answer (js ''What is the capital of France?'') \<and>
   observations (steady_world (js ''What is the capital of France?''))
     (config_of asciiLower (steady_world (js ''What is the capital of France?''))
        spaced_echo_options) 0 (initial_state spaced_echo_options) =
   [Some (js ''What is the capital of France?''), Some (js ''What is the capital of France?''),
    Some (js ''What is the capital of France?'')]"
  by code_simp

text \<open>
  Claim C5, amended: in a poll whose extracted candidate equals the submitted question after
  trimming the ends and lower-casing (inner runs of white space are not collapsed), the
  fingerprint of the candidate is added to the known set and the iteration continues (if the
  wait does not throw) with the stability counter and the last candidate as they were;
  nothing is compared in that poll. From then on the primary and the fallback path skip the
  text; only the in-page scan of the last resort can extract it again.
\<close>

theorem question_echo_skipped:
  assumes "\<not> (n mod 10 = 0 \<and> \<not> o_responsive ob)"
    and "thinking_check c ob s = None"
    and "extractLatestText (o_page ob) (knownHashes s) = Candidate candidate"
    and "toLowerCase c (trim candidate) = sanitizedQuestion c"
  shows "iteration c ob n s =
           (case waitForPollInterval (safePollIntervalMs c) (o_wait ob) (fastPollStreak s) of
              Inl e \<Rightarrow> Stop (Throws e)
            | Inr streak \<Rightarrow>
                Continue (s\<lparr>knownHashes := finsert (fingerprint candidate) (knownHashes s),
                            fastPollStreak := streak\<rparr>)) \<and>
         compared c ob n s = None \<and>
         (\<forall>page known. fingerprint candidate |\<in>| known \<and>
            extractLatestText page known = Candidate candidate \<longrightarrow>
            p_containers page = Thrown False \<and> last_resort_path page = Candidate candidate)"
proof -
  from extractLatestText_Candidate [OF assms(3)]
  have ne: "candidate \<noteq> []" and tr: "trim candidate = candidate" by simp_all
  have "iteration c ob n s =
           (case waitForPollInterval (safePollIntervalMs c) (o_wait ob) (fastPollStreak s) of
              Inl e \<Rightarrow> Stop (Throws e)
            | Inr streak \<Rightarrow>
                Continue (s\<lparr>knownHashes := finsert (fingerprint candidate) (knownHashes s),
                            fastPollStreak := streak\<rparr>))"
  proof -
    have fp: "fingerprint candidate = hashString candidate"
      by (simp add: fingerprint_def tr)
    from assms(1) have "iteration c ob n s =
        (case thinking_check c ob s of
           Some st \<Rightarrow> st
         | None \<Rightarrow> handle_candidate c ob s (extractLatestText (o_page ob) (knownHashes s)))"
      by (simp only: iteration_def if_not_P if_False)
    also have "\<dots> = handle_candidate c ob s (Candidate candidate)"
      using assms(2,3) by simp
    also have "\<dots> =
           (case waitForPollInterval (safePollIntervalMs c) (o_wait ob) (fastPollStreak s) of
              Inl e \<Rightarrow> Stop (Throws e)
            | Inr streak \<Rightarrow>
                Continue (s\<lparr>knownHashes := finsert (fingerprint candidate) (knownHashes s),
                            fastPollStreak := streak\<rparr>))"
      using assms(4) ne tr by (simp add: handle_candidate_def Let_def fp split: sum.splits)
    finally show ?thesis .
  qed
  moreover have "compared c ob n s = None"
    using assms by (simp add: compared_def)
  moreover have "\<forall>page known. fingerprint candidate |\<in>| known \<and>
            extractLatestText page known = Candidate candidate \<longrightarrow>
            p_containers page = Thrown False \<and> last_resort_path page = Candidate candidate"
    using extractLatestText_Candidate by blast
  ultimately show ?thesis by blast
qed

theorem question_echo_skipped_witness:
  "extractLatestText (page_showing (js ''What is the capital of France?''))
      (knownHashes (initial_state echo_options)) =
     Candidate (js ''What is the capital of France?'') \<and>
   toLowerCase echo_config (trim (js ''What is the capital of France?'')) =
     sanitizedQuestion echo_config \<and>
   iteration echo_config (quiet_poll (page_showing (js ''What is the capital of France?''))) 1
      (initial_state echo_options) =
     Continue ((initial_state echo_options)
       \<lparr>knownHashes := {|fingerprint (js ''What is the capital of France?'')|}, fastPollStreak := 0\<rparr>) \<and>
   compared echo_config (quiet_poll (page_showing (js ''What is the capital of France?''))) 1
      (initial_state echo_options) = None"
proof -
  let ?q = "js ''What is the capital of France?''"
  let ?ob = "quiet_poll (page_showing ?q)"
  let ?s = "initial_state echo_options"
  have h1: "\<not> ((1::nat) mod 10 = 0 \<and> \<not> o_responsive ?ob)" by simp
  have h2: "thinking_check echo_config ?ob ?s = None" by code_simp
  have h3: "extractLatestText (o_page ?ob) (knownHashes ?s) = Candidate ?q" by code_simp
  have h4: "toLowerCase echo_config (trim ?q) = sanitizedQuestion echo_config" by code_simp
  have w: "waitForPollInterval (safePollIntervalMs echo_config) (o_wait ?ob) (fastPollStreak ?s) = Inr 0"
    by code_simp
  have k: "knownHashes ?s = {||}" by code_simp
  have p: "o_page ?ob = page_showing ?q" by (simp add: quiet_poll_def)
  from question_echo_skipped [OF h1 h2 h3 h4] h3 h4 show ?thesis
    by (simp add: w k p)
qed

section \<open>The returned text\<close>

text \<open>
  Claim C9: a string returned by \<open>waitForLatestAnswer\<close> is not empty and equals its own
  \<open>trim\<close>.
\<close>

theorem answer_is_trimmed_nonempty: "waitForLatestAnswer lc w opts = Answer t \<Longrightarrow> t \<noteq> [] \<and> trim t = t"
proof -
  assume a: "waitForLatestAnswer lc w opts = Answer t"
  have "loop w (config_of lc w opts) 0 (initial_state opts) = Inl (Answer t)"
  proof (cases "loop w (config_of lc w opts) 0 (initial_state opts)")
    case (Inl out)
    with a show ?thesis by (simp add: waitForLatestAnswer_def)
  next
    case (Inr m)
    with a show ?thesis by (simp add: waitForLatestAnswer_def after_loop_def Let_def split: if_splits)
  qed
  then show ?thesis by (rule loop_Answer_trimmed)
qed

theorem answer_is_trimmed_nonempty_witness:
  "waitForLatestAnswer asciiLower (steady_world (js ''Paris is the capital of France.'')) default_options =
     Answer (js ''Paris is the capital of France.'') \<and>
   js ''Paris is the capital of France.'' \<noteq> [] \<and>
   trim (js ''Paris is the capital of France.'') = js ''Paris is the capital of France.''"
proof -
  have run: "waitForLatestAnswer asciiLower (steady_world (js ''Paris is the capital of France.'')) default_options =
     Answer (js ''Paris is the capital of France.'')"
    by code_simp
  from run answer_is_trimmed_nonempty [OF run] show ?thesis by simp
qed

section \<open>Source references\<close>

lemma extractSources_at_most_30:
  "extractSourcesFromContainer lc container = Val refs \<Longrightarrow> length refs \<le> 30"
  by (auto simp: extractSourcesFromContainer_def split: attempt.splits)

text \<open>
  Claim C7: a returned list has at most 30 entries, and no two of them share the lower-cased
  pair of title and url. The bound holds (lemma above). The pair can repeat: the key of the
  set \<open>unique\<close> is built from the title before the url stands in for an empty one. For the
  container with the links \<open>1.\<close> and \<open>https://example.com/\<close> to the same address, the first
  title is empty after the citation prefix is stripped, the keys differ, and both entries
  are returned with the address as title and url.
\<close>

theorem duplicate_title_url_pair:
  "extractSourcesFromContainer asciiLower (Val numbered_link_container) =
     Val [\<lparr>title = js ''https://example.com/'', url = Some (js ''https://example.com/''),
           raw_text = js ''1.''\<rparr>,
          \<lparr>title = js ''https://example.com/'', url = Some (js ''https://example.com/''),
           raw_text = js ''https://example.com/''\<rparr>]"
  by code_simp

end
